theory Spec2Isabelle
  imports Complex_Main
begin

section \<open>JavaScript numbers\<close>

text \<open>
  The program computes with JavaScript numbers. A number is modelled as a finite real, one of
  the two infinities, or NaN. The special values follow IEEE 754 as JavaScript exposes them:
  NaN is absorbing, every comparison with NaN is false, \<open>0 / 0\<close> and \<open>Infinity - Infinity\<close>
  are NaN, a non-zero finite number divided by zero is an infinity. Finite values are exact
  reals: rounding, overflow of a finite result, underflow and the sign of zero are outside
  the model (zero is the positive zero).
\<close>

datatype jsnum = Fin real | PInf | NInf | NaN

instantiation jsnum :: "{plus, minus, uminus, times, inverse, abs, ord}"
begin

fun plus_jsnum :: "jsnum \<Rightarrow> jsnum \<Rightarrow> jsnum" where
  "plus_jsnum (Fin a) (Fin b) = Fin (a + b)"
| "plus_jsnum NaN _ = NaN"
| "plus_jsnum _ NaN = NaN"
| "plus_jsnum PInf NInf = NaN"
| "plus_jsnum NInf PInf = NaN"
| "plus_jsnum PInf _ = PInf"
| "plus_jsnum _ PInf = PInf"
| "plus_jsnum NInf _ = NInf"
| "plus_jsnum _ NInf = NInf"

fun uminus_jsnum :: "jsnum \<Rightarrow> jsnum" where
  "uminus_jsnum (Fin a) = Fin (- a)"
| "uminus_jsnum PInf = NInf"
| "uminus_jsnum NInf = PInf"
| "uminus_jsnum NaN = NaN"

definition minus_jsnum :: "jsnum \<Rightarrow> jsnum \<Rightarrow> jsnum" where
  "minus_jsnum a b = a + (- b)"

fun times_jsnum :: "jsnum \<Rightarrow> jsnum \<Rightarrow> jsnum" where
  "times_jsnum (Fin a) (Fin b) = Fin (a * b)"
| "times_jsnum NaN _ = NaN"
| "times_jsnum _ NaN = NaN"
| "times_jsnum PInf (Fin b) = (if b = 0 then NaN else if 0 < b then PInf else NInf)"
| "times_jsnum NInf (Fin b) = (if b = 0 then NaN else if 0 < b then NInf else PInf)"
| "times_jsnum (Fin a) PInf = (if a = 0 then NaN else if 0 < a then PInf else NInf)"
| "times_jsnum (Fin a) NInf = (if a = 0 then NaN else if 0 < a then NInf else PInf)"
| "times_jsnum PInf PInf = PInf"
| "times_jsnum PInf NInf = NInf"
| "times_jsnum NInf PInf = NInf"
| "times_jsnum NInf NInf = PInf"

fun divide_jsnum :: "jsnum \<Rightarrow> jsnum \<Rightarrow> jsnum" where
  "divide_jsnum (Fin a) (Fin b) =
     (if b = 0 then (if a = 0 then NaN else if 0 < a then PInf else NInf) else Fin (a / b))"
| "divide_jsnum NaN _ = NaN"
| "divide_jsnum _ NaN = NaN"
| "divide_jsnum (Fin a) PInf = Fin 0"
| "divide_jsnum (Fin a) NInf = Fin 0"
| "divide_jsnum PInf (Fin b) = (if 0 \<le> b then PInf else NInf)"
| "divide_jsnum NInf (Fin b) = (if 0 \<le> b then NInf else PInf)"
| "divide_jsnum PInf PInf = NaN"
| "divide_jsnum PInf NInf = NaN"
| "divide_jsnum NInf PInf = NaN"
| "divide_jsnum NInf NInf = NaN"

definition inverse_jsnum :: "jsnum \<Rightarrow> jsnum" where
  "inverse_jsnum a = divide (Fin 1) a"

fun abs_jsnum :: "jsnum \<Rightarrow> jsnum" where
  "abs_jsnum (Fin a) = Fin \<bar>a\<bar>"
| "abs_jsnum PInf = PInf"
| "abs_jsnum NInf = PInf"
| "abs_jsnum NaN = NaN"

fun less_jsnum :: "jsnum \<Rightarrow> jsnum \<Rightarrow> bool" where
  "less_jsnum (Fin a) (Fin b) = (a < b)"
| "less_jsnum NaN _ = False"
| "less_jsnum _ NaN = False"
| "less_jsnum PInf _ = False"
| "less_jsnum _ NInf = False"
| "less_jsnum (Fin a) PInf = True"
| "less_jsnum NInf (Fin b) = True"
| "less_jsnum NInf PInf = True"

fun less_eq_jsnum :: "jsnum \<Rightarrow> jsnum \<Rightarrow> bool" where
  "less_eq_jsnum (Fin a) (Fin b) = (a \<le> b)"
| "less_eq_jsnum NaN _ = False"
| "less_eq_jsnum _ NaN = False"
| "less_eq_jsnum _ PInf = True"
| "less_eq_jsnum NInf _ = True"
| "less_eq_jsnum PInf _ = False"
| "less_eq_jsnum _ NInf = False"

instance ..

end

text \<open>A number is finite when it is neither NaN nor an infinity (\<open>Number.isFinite\<close>).\<close>

fun is_finite :: "jsnum \<Rightarrow> bool" where
  "is_finite (Fin a) = True"
| "is_finite _ = False"

text \<open>Truthiness of a number: NaN and zero are falsy. \<open>a || b\<close> is \<open>a\<close> when \<open>a\<close> is truthy.\<close>

fun truthy :: "jsnum \<Rightarrow> bool" where
  "truthy (Fin a) = (a \<noteq> 0)"
| "truthy NaN = False"
| "truthy _ = True"

definition js_or :: "jsnum \<Rightarrow> jsnum \<Rightarrow> jsnum" where
  "js_or a b = (if truthy a then a else b)"

definition PI :: jsnum where
  "PI = Fin pi"

fun js_sqrt :: "jsnum \<Rightarrow> jsnum" where
  "js_sqrt (Fin a) = (if a < 0 then NaN else Fin (sqrt a))"
| "js_sqrt PInf = PInf"
| "js_sqrt NInf = NaN"
| "js_sqrt NaN = NaN"

text \<open>\<open>Math.hypot\<close>: an infinite argument gives Infinity even beside a NaN.\<close>

fun js_hypot :: "jsnum \<Rightarrow> jsnum \<Rightarrow> jsnum" where
  "js_hypot (Fin a) (Fin b) = Fin (sqrt (a * a + b * b))"
| "js_hypot PInf _ = PInf"
| "js_hypot NInf _ = PInf"
| "js_hypot _ PInf = PInf"
| "js_hypot _ NInf = PInf"
| "js_hypot NaN _ = NaN"
| "js_hypot _ NaN = NaN"

text \<open>\<open>Math.atan2 (y, x)\<close>, the angle of the point \<open>(x, y)\<close>.\<close>

definition atan2_real :: "real \<Rightarrow> real \<Rightarrow> real" where
  "atan2_real b a =
     (if 0 < a then arctan (b / a)
      else if a < 0 then (if 0 \<le> b then arctan (b / a) + pi else arctan (b / a) - pi)
      else if 0 < b then pi / 2
      else if b < 0 then - (pi / 2)
      else 0)"

fun js_atan2 :: "jsnum \<Rightarrow> jsnum \<Rightarrow> jsnum" where
  "js_atan2 (Fin b) (Fin a) = Fin (atan2_real b a)"
| "js_atan2 NaN _ = NaN"
| "js_atan2 _ NaN = NaN"
| "js_atan2 PInf (Fin a) = Fin (pi / 2)"
| "js_atan2 NInf (Fin a) = Fin (- (pi / 2))"
| "js_atan2 (Fin b) PInf = Fin 0"
| "js_atan2 (Fin b) NInf = (if 0 \<le> b then Fin pi else Fin (- pi))"
| "js_atan2 PInf PInf = Fin (pi / 4)"
| "js_atan2 PInf NInf = Fin (3 * pi / 4)"
| "js_atan2 NInf PInf = Fin (- (pi / 4))"
| "js_atan2 NInf NInf = Fin (- (3 * pi / 4))"

fun js_sin :: "jsnum \<Rightarrow> jsnum" where
  "js_sin (Fin a) = Fin (sin a)"
| "js_sin _ = NaN"

fun js_cos :: "jsnum \<Rightarrow> jsnum" where
  "js_cos (Fin a) = Fin (cos a)"
| "js_cos _ = NaN"

text \<open>
  \<open>Math.pow\<close> and \<open>**\<close>. Every exponent in the program is a finite literal (0.2, 2 and 4),
  so the exponent is a real.
\<close>

definition is_int :: "real \<Rightarrow> bool" where
  "is_int e = (of_int \<lfloor>e\<rfloor> = e)"

fun js_pow :: "jsnum \<Rightarrow> real \<Rightarrow> jsnum" where
  "js_pow NaN e = (if e = 0 then Fin 1 else NaN)"
| "js_pow PInf e = (if e = 0 then Fin 1 else if 0 < e then PInf else Fin 0)"
| "js_pow NInf e =
     (if e = 0 then Fin 1
      else if 0 < e then (if is_int e \<and> odd \<lfloor>e\<rfloor> then NInf else PInf)
      else Fin 0)"
| "js_pow (Fin a) e =
     (if e = 0 then Fin 1
      else if 0 < a then Fin (a powr e)
      else if a = 0 then (if 0 < e then Fin 0 else PInf)
      else if is_int e then Fin ((if odd \<lfloor>e\<rfloor> then - 1 else 1) * (\<bar>a\<bar> powr e))
      else NaN)"

fun js_floor :: "jsnum \<Rightarrow> jsnum" where
  "js_floor (Fin a) = Fin (of_int \<lfloor>a\<rfloor>)"
| "js_floor v = v"

fun js_ceil :: "jsnum \<Rightarrow> jsnum" where
  "js_ceil (Fin a) = Fin (of_int \<lceil>a\<rceil>)"
| "js_ceil v = v"

text \<open>\<open>Math.max\<close> and \<open>Math.min\<close> return NaN as soon as an argument is NaN.\<close>

definition js_max :: "jsnum \<Rightarrow> jsnum \<Rightarrow> jsnum" where
  "js_max a b = (if a = NaN \<or> b = NaN then NaN else if a < b then b else a)"

definition js_min :: "jsnum \<Rightarrow> jsnum \<Rightarrow> jsnum" where
  "js_min a b = (if a = NaN \<or> b = NaN then NaN else if b < a then b else a)"

text \<open>
  Reading a number array outside its bounds gives \<open>undefined\<close>, which arithmetic turns into
  NaN. Writing an ordinary array at or past its length extends it (the holes read as
  \<open>undefined\<close>).
\<close>

definition rd :: "jsnum list \<Rightarrow> nat \<Rightarrow> jsnum" where
  "rd xs i = (if i < length xs then xs ! i else NaN)"

definition js_set :: "jsnum list \<Rightarrow> nat \<Rightarrow> jsnum \<Rightarrow> jsnum list" where
  "js_set xs i v =
     (if i < length xs then xs[i := v] else xs @ replicate (i - length xs) NaN @ [v])"


section \<open>Linear system solver\<close>

datatype js_error = RangeError | TypeError

text \<open>\<open>A.map((row, i) => [...row, b[i]])\<close>: every row gets its right-hand side appended.\<close>

definition augment :: "jsnum list list \<Rightarrow> jsnum list \<Rightarrow> jsnum list list" where
  "augment A b = map (\<lambda>i. (A ! i) @ [rd b i]) [0..<length A]"

text \<open>The pivot search: the row below \<open>i\<close> whose entry in column \<open>i\<close> is strictly largest.\<close>

definition find_pivot :: "jsnum list list \<Rightarrow> nat \<Rightarrow> nat \<Rightarrow> nat" where
  "find_pivot M n i =
     fold (\<lambda>k maxRow. if \<bar>rd (M ! k) i\<bar> > \<bar>rd (M ! maxRow) i\<bar> then k else maxRow)
       [i + 1..<n] i"

text \<open>\<open>for (j = i; j <= n; j++) M[i][j] /= pivot\<close>, the pivot read once before the loop.\<close>

definition normalize_row :: "nat \<Rightarrow> nat \<Rightarrow> jsnum list \<Rightarrow> jsnum list" where
  "normalize_row n i row =
     (let pivot = rd row i
      in fold (\<lambda>j r. js_set r j (rd r j / pivot)) [i..<n + 1] row)"

text \<open>\<open>for (j = i; j <= n; j++) M[k][j] -= factor * M[i][j]\<close> on a row \<open>k \<noteq> i\<close>.\<close>

definition eliminate_row :: "nat \<Rightarrow> nat \<Rightarrow> jsnum list \<Rightarrow> jsnum list \<Rightarrow> jsnum list" where
  "eliminate_row n i pivrow row =
     (let factor = rd row i
      in fold (\<lambda>j r. js_set r j (rd r j - factor * rd pivrow j)) [i..<n + 1] row)"

text \<open>One round of the forward elimination: pivot, swap, normalise, eliminate.\<close>

definition elim_step :: "nat \<Rightarrow> nat \<Rightarrow> jsnum list list \<Rightarrow> jsnum list list" where
  "elim_step n i M =
     (let maxRow = find_pivot M n i;
          M1 = M[i := M ! maxRow, maxRow := M ! i];
          M2 = M1[i := normalize_row n i (M1 ! i)]
      in fold (\<lambda>k Mk. if k \<noteq> i then Mk[k := eliminate_row n i (Mk ! i) (Mk ! k)] else Mk)
           [0..<n] M2)"

text \<open>
  The solver has no \<open>throw\<close>, and arithmetic on numbers does not raise: a zero pivot gives
  infinities and NaN. The result is a sum all the same, since its caller wraps the call in
  \<open>try\<close>/\<open>catch\<close>.
\<close>

definition solveLinearSystem :: "jsnum list list \<Rightarrow> jsnum list \<Rightarrow> js_error + jsnum list" where
  "solveLinearSystem A b =
     (let n = length A;
          M = fold (elim_step n) [0..<n] (augment A b)
      in Inr (map (\<lambda>row. rd row n) M))"

section \<open>Panel aerodynamics solver\<close>

text \<open>A point (the fields \<open>x\<close> and \<open>y\<close> of the source).\<close>

record Point =
  px :: jsnum
  py :: jsnum

text \<open>An entry of the pressure distribution (the fields \<open>x\<close> and \<open>cp\<close> of the source).\<close>

record CpPoint =
  cp_x :: jsnum
  cp_val :: jsnum

record PhysicsResult =
  liftCoefficient :: jsnum
  dragCoefficient :: jsnum
  momentCoefficient :: jsnum
  reynoldsNumber :: jsnum
  cpDistribution :: "CpPoint list"
  centerOfPressure :: jsnum

definition KINEMATIC_VISCOSITY :: jsnum where
  "KINEMATIC_VISCOSITY = Fin 0.0000146"

definition REAL_CHORD :: jsnum where
  "REAL_CHORD = Fin 0.2"

definition pixelChord :: jsnum where
  "pixelChord = Fin 200"

definition stallAngle :: jsnum where
  "stallAngle = Fin 15 * (PI / Fin 180)"

definition to_alpha :: "jsnum \<Rightarrow> jsnum" where
  "to_alpha alphaDeg = alphaDeg * (PI / Fin 180)"

text \<open>The panels of the open chain: \<open>shape.length - 1\<close> of them.\<close>

definition panels :: "Point list \<Rightarrow> (Point \<times> Point) list" where
  "panels shape = map (\<lambda>i. (shape ! i, shape ! (i + 1))) [0..<length shape - 1]"

definition panelLengths :: "(Point \<times> Point) list \<Rightarrow> jsnum list" where
  "panelLengths ps = map (\<lambda>(p1, p2). js_hypot (px p2 - px p1) (py p2 - py p1)) ps"

definition theta :: "(Point \<times> Point) list \<Rightarrow> jsnum list" where
  "theta ps = map (\<lambda>(p1, p2). js_atan2 (py p2 - py p1) (px p2 - px p1)) ps"

definition controlPoints :: "(Point \<times> Point) list \<Rightarrow> Point list" where
  "controlPoints ps =
     map (\<lambda>(p1, p2). \<lparr>px = (px p1 + px p2) / Fin 2, py = (py p1 + py p2) / Fin 2\<rparr>) ps"

text \<open>The right-hand side: minus the free-stream component normal to each panel.\<close>

definition influence_rhs :: "jsnum \<Rightarrow> jsnum \<Rightarrow> jsnum list \<Rightarrow> nat \<Rightarrow> jsnum list" where
  "influence_rhs V_inf alpha th nPanels =
     map (\<lambda>i. let nx = - js_sin (rd th i); ny = js_cos (rd th i)
              in (- V_inf) * (js_cos alpha * nx + js_sin alpha * ny))
       [0..<nPanels]"

text \<open>The influence matrix: 0.5 on the diagonal, the point-vortex kernel elsewhere.\<close>

definition influence_matrix ::
  "Point list \<Rightarrow> jsnum list \<Rightarrow> jsnum list \<Rightarrow> nat \<Rightarrow> jsnum list list" where
  "influence_matrix cps lens th nPanels =
     map (\<lambda>i. let nx = - js_sin (rd th i); ny = js_cos (rd th i)
              in map (\<lambda>j. if i = j then Fin 0.5
                          else let dx = px (cps ! i) - px (cps ! j);
                                   dy = py (cps ! i) - py (cps ! j);
                                   r2 = dx * dx + dy * dy;
                                   cross = dx * ny - dy * nx
                               in (Fin 1 / (Fin 2 * PI)) * (cross / r2) * rd lens j)
                   [0..<nPanels])
       [0..<nPanels]"

text \<open>
  The vortex strengths: the solution of the system, and in the \<open>catch\<close> branch the all-zero
  vector.
\<close>

definition solve_gamma :: "Point list \<Rightarrow> jsnum \<Rightarrow> jsnum \<Rightarrow> jsnum list" where
  "solve_gamma shape speed alphaDeg =
     (let nPanels = length shape - 1;
          ps = panels shape;
          A = influence_matrix (controlPoints ps) (panelLengths ps) (theta ps) nPanels;
          RHS = influence_rhs speed (to_alpha alphaDeg) (theta ps) nPanels
      in case solveLinearSystem A RHS of
           Inr g \<Rightarrow> g
         | Inl e \<Rightarrow> replicate nPanels (Fin 0))"

text \<open>\<open>Circulation += gamma[i] * panelLengths[i]\<close> over the panels.\<close>

definition Circulation :: "Point list \<Rightarrow> jsnum \<Rightarrow> jsnum \<Rightarrow> jsnum" where
  "Circulation shape speed alphaDeg =
     (let gamma = solve_gamma shape speed alphaDeg;
          lens = panelLengths (panels shape)
      in fold (\<lambda>i c. c + rd gamma i * rd lens i) [0..<length shape - 1] (Fin 0))"

definition cpDist :: "Point list \<Rightarrow> jsnum \<Rightarrow> jsnum \<Rightarrow> CpPoint list" where
  "cpDist shape speed alphaDeg =
     (let gamma = solve_gamma shape speed alphaDeg;
          cps = controlPoints (panels shape)
      in map (\<lambda>i. let localV = speed + rd gamma i
                  in \<lparr>cp_x = px (cps ! i), cp_val = Fin 1 - js_pow (localV / speed) 2\<rparr>)
           [0..<length shape - 1])"

definition Reynolds :: "jsnum \<Rightarrow> jsnum" where
  "Reynolds V_inf = (V_inf * REAL_CHORD) / KINEMATIC_VISCOSITY"

text \<open>The Kutta-Joukowski lift coefficient, before the stall correction.\<close>

definition kutta_Cl :: "Point list \<Rightarrow> jsnum \<Rightarrow> jsnum \<Rightarrow> jsnum" where
  "kutta_Cl shape speed alphaDeg =
     (Fin 2 * Circulation shape speed alphaDeg) / (speed * pixelChord)"

text \<open>The lift coefficient after the stall correction: the variable \<open>Cl\<close> at the return.\<close>

definition final_Cl :: "Point list \<Rightarrow> jsnum \<Rightarrow> jsnum \<Rightarrow> jsnum" where
  "final_Cl shape speed alphaDeg =
     (let alpha = to_alpha alphaDeg;
          Cl = kutta_Cl shape speed alphaDeg
      in if \<bar>alpha\<bar> > stallAngle
         then (let factor = js_cos alpha * Fin 0.8 in Cl * factor)
         else Cl)"

text \<open>The drag coefficient: the variable \<open>Cd\<close> at the return.\<close>

definition final_Cd :: "Point list \<Rightarrow> jsnum \<Rightarrow> jsnum \<Rightarrow> jsnum" where
  "final_Cd shape speed alphaDeg =
     (let alpha = to_alpha alphaDeg;
          Cl = final_Cl shape speed alphaDeg;
          Cf = Fin 0.074 / js_pow (Reynolds speed) 0.2;
          tc = Fin 0.12;
          formFactor = Fin 1 + Fin 2 * tc + Fin 60 * js_pow tc 4;
          Cd = Fin 2 * Cf * formFactor
      in if \<bar>alpha\<bar> > stallAngle
         then Cd + Fin 1.8 * js_pow (js_sin alpha) 2
         else Cd + (Cl * Cl) / (PI * Fin 50))"

text \<open>
  \<open>cpDist.sort((a, b) => a.x - b.x)\<close>: a stable sort; \<open>b\<close> stays before \<open>a\<close> unless the
  comparator puts \<open>a\<close> first. With NaN abscissae the comparator is not an order and the
  engine's result is implementation-defined; no property below depends on the order.
\<close>

fun insert_cp :: "CpPoint \<Rightarrow> CpPoint list \<Rightarrow> CpPoint list" where
  "insert_cp a [] = [a]"
| "insert_cp a (b # bs) =
     (if cp_x b - cp_x a < Fin 0 then b # insert_cp a bs else a # b # bs)"

definition sort_cp :: "CpPoint list \<Rightarrow> CpPoint list" where
  "sort_cp xs = foldr insert_cp xs []"

text \<open>
  \<open>calculatePhysics\<close>. With an empty \<open>shape\<close> the panel count is \<open>-1\<close> and \<open>Array(nPanels)\<close>
  raises a RangeError; nothing else in the function raises. The fourth parameter
  \<open>chordLength\<close> is declared and never read.
\<close>

definition calculatePhysics ::
  "Point list \<Rightarrow> jsnum \<Rightarrow> jsnum \<Rightarrow> jsnum \<Rightarrow> js_error + PhysicsResult" where
  "calculatePhysics shape speed alphaDeg chordLength =
     (if shape = [] then Inl RangeError
      else let Re = Reynolds speed;
               Cl = final_Cl shape speed alphaDeg;
               Cd = final_Cd shape speed alphaDeg;
               dist = sort_cp (cpDist shape speed alphaDeg)
           in Inr \<lparr>liftCoefficient = js_or Cl (Fin 0),
                   dragCoefficient = js_or Cd (Fin 0.01),
                   momentCoefficient = Fin (- 0.25) * Cl,
                   reynoldsNumber = Re,
                   cpDistribution = dist,
                   centerOfPressure = Fin 0.25\<rparr>)"


text \<open>
  Concrete polygons. \<open>folded_plate\<close> runs from the origin to \<open>(1, 0)\<close> and back: two panels
  whose control points coincide. \<open>corner\<close> is a right angle with two unit panels.
  \<open>wedge\<close> is a flat triangle of the size of the on-screen bodies.
\<close>

definition folded_plate :: "Point list" where
  "folded_plate =
     [\<lparr>px = Fin 0, py = Fin 0\<rparr>, \<lparr>px = Fin 1, py = Fin 0\<rparr>, \<lparr>px = Fin 0, py = Fin 0\<rparr>]"

definition corner :: "Point list" where
  "corner =
     [\<lparr>px = Fin 0, py = Fin 0\<rparr>, \<lparr>px = Fin 1, py = Fin 0\<rparr>, \<lparr>px = Fin 1, py = Fin 1\<rparr>]"

definition wedge :: "Point list" where
  "wedge =
     [\<lparr>px = Fin 300, py = Fin 200\<rparr>, \<lparr>px = Fin 500, py = Fin 200\<rparr>,
      \<lparr>px = Fin 400, py = Fin 230\<rparr>]"

section \<open>Lattice constants\<close>

definition Q :: nat where
  "Q = 9"

definition ROWS :: nat where
  "ROWS = 100"

definition COLS :: nat where
  "COLS = 200"

definition SCALE :: jsnum where
  "SCALE = Fin 4"

definition ex :: "int list" where
  "ex = [0, 1, 0, - 1, 0, 1, - 1, - 1, 1]"

definition ey :: "int list" where
  "ey = [0, 0, 1, 0, - 1, 1, 1, - 1, - 1]"

definition w :: "jsnum list" where
  "w = [Fin (4 / 9),
        Fin (1 / 9), Fin (1 / 9), Fin (1 / 9), Fin (1 / 9),
        Fin (1 / 36), Fin (1 / 36), Fin (1 / 36), Fin (1 / 36)]"

definition opp :: "nat list" where
  "opp = [0, 3, 4, 1, 2, 7, 8, 5, 6]"

section \<open>Barrier rasterizer\<close>

text \<open>
  \<open>for (let v = lo; v <= hi; v++)\<close> on numbers: the values the loop variable takes, or
  \<open>None\<close> when the loop does not end (an infinite bound that the comparison keeps accepting).
  A NaN bound makes the comparison false at once.
\<close>

fun count_up :: "jsnum \<Rightarrow> jsnum \<Rightarrow> real list option" where
  "count_up (Fin a) (Fin b) = Some (map (\<lambda>k. a + real k) [0..<nat (\<lfloor>b - a\<rfloor> + 1)])"
| "count_up NaN _ = Some []"
| "count_up _ NaN = Some []"
| "count_up NInf _ = None"
| "count_up PInf PInf = None"
| "count_up (Fin a) PInf = None"
| "count_up _ _ = Some []"

text \<open>The \<open>forEach\<close> that collects the bounding box \<open>(minX, maxX, minY, maxY)\<close>.\<close>

definition bbox :: "Point list \<Rightarrow> jsnum \<Rightarrow> jsnum \<Rightarrow> jsnum \<times> jsnum \<times> jsnum \<times> jsnum" where
  "bbox gridPoly gridWidth gridHeight =
     fold (\<lambda>p (minX, maxX, minY, maxY).
             (if px p < minX then px p else minX,
              if px p > maxX then px p else maxX,
              if py p < minY then py p else minY,
              if py p > maxY then py p else maxY))
       gridPoly (gridWidth, Fin 0, gridHeight, Fin 0)"

text \<open>The even-odd crossing test for the cell \<open>(x, y)\<close>; \<open>j\<close> trails \<open>i\<close> by one vertex.\<close>

definition inside_polygon :: "Point list \<Rightarrow> real \<Rightarrow> real \<Rightarrow> bool" where
  "inside_polygon gridPoly x y =
     fold (\<lambda>i inside.
             let j = (if i = 0 then length gridPoly - 1 else i - 1);
                 xi = px (gridPoly ! i); yi = py (gridPoly ! i);
                 xj = px (gridPoly ! j); yj = py (gridPoly ! j);
                 intersect = (((yi > Fin y) \<noteq> (yj > Fin y)) \<and>
                              (Fin x < (xj - xi) * (Fin y - yi) / (yj - yi) + xi))
             in if intersect then \<not> inside else inside)
       [0..<length gridPoly] False"

text \<open>
  \<open>barrier.current[y * COLS + x] = 1\<close>. A typed array ignores a write outside its bounds or
  at a key that is not an index.
\<close>

definition mark_solid :: "nat list \<Rightarrow> real \<Rightarrow> real \<Rightarrow> nat list" where
  "mark_solid b y x =
     (let k = y * real COLS + x
      in if is_int k \<and> 0 \<le> k then b[nat \<lfloor>k\<rfloor> := 1] else b)"

text \<open>
  \<open>rasterizePolygon\<close>, from the occupancy mask \<open>b\<close> it finds to the mask it leaves. The grid
  dimensions are integers (the call site passes \<open>COLS\<close> and \<open>ROWS\<close>).
\<close>

definition rasterizePolygon :: "Point list \<Rightarrow> int \<Rightarrow> int \<Rightarrow> nat list \<Rightarrow> nat list option" where
  "rasterizePolygon polygon gridWidth gridHeight b =
     (let b0 = replicate (length b) 0
      in if length polygon < 3 then Some b0
         else
           let gridPoly = map (\<lambda>p. \<lparr>px = px p / SCALE, py = py p / SCALE\<rparr>) polygon;
               (minX, maxX, minY, maxY) =
                  bbox gridPoly (Fin (of_int gridWidth)) (Fin (of_int gridHeight));
               minX = js_max (Fin 0) (js_floor minX);
               maxX = js_min (Fin (of_int gridWidth) - Fin 1) (js_ceil maxX);
               minY = js_max (Fin 0) (js_floor minY);
               maxY = js_min (Fin (of_int gridHeight) - Fin 1) (js_ceil maxY)
           in case count_up minY maxY of
                None \<Rightarrow> None
              | Some ys \<Rightarrow>
                  if ys = [] then Some b0
                  else (case count_up minX maxX of
                          None \<Rightarrow> None
                        | Some xs \<Rightarrow>
                            Some (fold (\<lambda>y b1.
                                    fold (\<lambda>x b2. if inside_polygon gridPoly x y
                                                  then mark_solid b2 y x else b2) xs b1)
                                  ys b0)))"

section \<open>Lattice fluid engine\<close>

text \<open>
  The persistent arrays of the engine. The populations, density and velocity are
  \<open>Float32Array\<close>s (the rounding of a stored value to single precision is outside the
  model), the barrier is a \<open>Uint8Array\<close>. A typed array has a fixed length: a write outside
  it is ignored, which is what \<open>xs[i := v]\<close> does.
\<close>

record fluid =
  n0 :: "jsnum list"
  n1 :: "jsnum list"
  density :: "jsnum list"
  ux :: "jsnum list"
  uy :: "jsnum list"
  barrier :: "nat list"

text \<open>\<open>if (barrier.current[idx])\<close>: a cell outside the array reads as \<open>undefined\<close>, falsy.\<close>

definition solid :: "nat list \<Rightarrow> nat \<Rightarrow> bool" where
  "solid b idx = (idx < length b \<and> b ! idx \<noteq> 0)"

definition exn :: "nat \<Rightarrow> jsnum" where
  "exn i = Fin (of_int (ex ! i))"

definition eyn :: "nat \<Rightarrow> jsnum" where
  "eyn i = Fin (of_int (ey ! i))"

text \<open>The equilibrium population of direction \<open>i\<close> at density \<open>d\<close> and velocity \<open>(u_x, u_y)\<close>.\<close>

definition eq_dist :: "nat \<Rightarrow> jsnum \<Rightarrow> jsnum \<Rightarrow> jsnum \<Rightarrow> jsnum" where
  "eq_dist i d u_x u_y =
     (let u2 = u_x * u_x + u_y * u_y;
          eu = exn i * u_x + eyn i * u_y
      in rd w i * d * (Fin 1 + Fin 3 * eu + Fin 4.5 * eu * eu - Fin 1.5 * u2))"

text \<open>Density and momentum of the cell \<open>idx\<close>: the sums over its nine populations.\<close>

definition moments :: "jsnum list \<Rightarrow> nat \<Rightarrow> jsnum \<times> jsnum \<times> jsnum" where
  "moments n idx =
     fold (\<lambda>i (d, u_x, u_y).
             let f = rd n (idx * Q + i)
             in (d + f, u_x + f * exn i, u_y + f * eyn i))
       [0..<Q] (Fin 0, Fin 0, Fin 0)"

text \<open>The velocity clamp: two successive tests against \<open>maxU = 0.35\<close>.\<close>

definition clamp_u :: "jsnum \<Rightarrow> jsnum" where
  "clamp_u u =
     (let maxU = Fin 0.35;
          u1 = (if u > maxU then maxU else u)
      in if u1 < - maxU then - maxU else u1)"

definition omega :: jsnum where
  "omega = (let visc = Fin 0.02 in Fin 1 / (Fin 3 * visc + Fin 0.5))"

definition inflow_u0 :: "jsnum \<Rightarrow> jsnum" where
  "inflow_u0 windSpeed = js_min (Fin 0.12) (windSpeed * Fin 0.002)"

text \<open>The inlet overwrites the nine populations of the cell with the inflow equilibrium.\<close>

definition impose_eq :: "nat \<Rightarrow> jsnum \<Rightarrow> jsnum \<Rightarrow> jsnum \<Rightarrow> jsnum list \<Rightarrow> jsnum list" where
  "impose_eq idx d u_x u_y n =
     fold (\<lambda>i m. m[idx * Q + i := eq_dist i d u_x u_y]) [0..<Q] n"

text \<open>The BGK collision relaxes the nine populations of the cell in place.\<close>

definition relax :: "nat \<Rightarrow> jsnum \<Rightarrow> jsnum \<Rightarrow> jsnum \<Rightarrow> jsnum list \<Rightarrow> jsnum list" where
  "relax idx d u_x u_y n =
     fold (\<lambda>i m. m[idx * Q + i :=
                    rd m (idx * Q + i) + omega * (eq_dist i d u_x u_y - rd m (idx * Q + i))])
       [0..<Q] n"

text \<open>
  The macroscopic values of the cell \<open>idx\<close> in column \<open>x\<close>: the density with its floor, then
  either the inlet (velocity \<open>u0\<close>, unit density, populations overwritten) or the velocity
  divided by the density and clamped. Returns \<open>d\<close>, \<open>u_x\<close>, \<open>u_y\<close> and the populations.
\<close>

definition macroscopic ::
  "jsnum \<Rightarrow> nat \<Rightarrow> jsnum list \<Rightarrow> nat \<Rightarrow> jsnum \<times> jsnum \<times> jsnum \<times> jsnum list" where
  "macroscopic u0 x n idx =
     (let (d, u_x, u_y) = moments n idx;
          d = (if d < Fin 0.01 then Fin 0.01 else d)
      in if x = 0
         then (Fin 1, u0, Fin 0, impose_eq idx (Fin 1) u0 (Fin 0) n)
         else (d, clamp_u (u_x / d), clamp_u (u_y / d), n))"

text \<open>The body of the first double loop, for the cell in row \<open>y\<close> and column \<open>x\<close>.\<close>

definition collide_cell :: "jsnum \<Rightarrow> nat \<Rightarrow> nat \<Rightarrow> fluid \<Rightarrow> fluid" where
  "collide_cell u0 y x s =
     (let idx = y * COLS + x
      in if solid (barrier s) idx then s
         else
           let (d, u_x, u_y, n) = macroscopic u0 x (n0 s) idx
           in s\<lparr>density := (density s)[idx := d],
                 ux := (ux s)[idx := u_x],
                 uy := (uy s)[idx := u_y],
                 n0 := relax idx d u_x u_y n\<rparr>)"

definition collide :: "jsnum \<Rightarrow> fluid \<Rightarrow> fluid" where
  "collide windSpeed s =
     fold (\<lambda>y. fold (\<lambda>x. collide_cell (inflow_u0 windSpeed) y x) [0..<COLS]) [0..<ROWS] s"

text \<open>The remainder operator \<open>%\<close> on integers: the sign follows the dividend.\<close>

definition js_rem :: "int \<Rightarrow> int \<Rightarrow> int" where
  "js_rem a b = sgn a * (\<bar>a\<bar> mod \<bar>b\<bar>)"

text \<open>
  Streaming into direction \<open>i\<close> of the cell \<open>(x, y)\<close>: the value assigned to
  \<open>n1[idx * Q + i]\<close>, or \<open>None\<close> when no branch of the \<open>if\<close> chain assigns.
\<close>

definition incoming :: "fluid \<Rightarrow> nat \<Rightarrow> nat \<Rightarrow> nat \<Rightarrow> jsnum option" where
  "incoming s y x i =
     (let idx = y * COLS + x;
          srcX = int x - ex ! i;
          srcY = int y - ey ! i
      in if 0 \<le> srcX \<and> srcX < int COLS \<and> 0 \<le> srcY \<and> srcY < int ROWS
         then (let srcIdx = nat (srcY * int COLS + srcX)
               in if solid (barrier s) srcIdx
                  then Some (rd (n0 s) (idx * Q + opp ! i))
                  else Some (rd (n0 s) (srcIdx * Q + i)))
         else if srcY < 0 \<or> int ROWS \<le> srcY
         then (let wrapY = js_rem (srcY + int ROWS) (int ROWS);
                   srcIdx = wrapY * int COLS + srcX
               in if 0 \<le> srcX \<and> srcX < int COLS
                  then Some (rd (n0 s) (nat srcIdx * Q + i))
                  else None)
         else if srcX < 0 then Some (rd w i)
         else None)"

definition stream_cell :: "nat \<Rightarrow> nat \<Rightarrow> fluid \<Rightarrow> fluid" where
  "stream_cell y x s =
     (let idx = y * COLS + x
      in if solid (barrier s) idx then s
         else s\<lparr>n1 := fold (\<lambda>i m. case incoming s y x i of
                                     Some v \<Rightarrow> m[idx * Q + i := v]
                                   | None \<Rightarrow> m)
                        [0..<Q] (n1 s)\<rparr>)"

definition stream :: "fluid \<Rightarrow> fluid" where
  "stream s = fold (\<lambda>y. fold (\<lambda>x. stream_cell y x) [0..<COLS]) [0..<ROWS] s"

text \<open>The third double loop: the populations of every solid cell are set to the weights.\<close>

definition reset_cell :: "nat \<Rightarrow> nat \<Rightarrow> fluid \<Rightarrow> fluid" where
  "reset_cell y x s =
     (if solid (barrier s) (y * COLS + x)
      then (let idx = y * COLS + x
            in s\<lparr>n1 := fold (\<lambda>i m. m[idx * Q + i := rd w i]) [0..<Q] (n1 s)\<rparr>)
      else s)"

definition reset_solid :: "fluid \<Rightarrow> fluid" where
  "reset_solid s = fold (\<lambda>y. fold (\<lambda>x. reset_cell y x) [0..<COLS]) [0..<ROWS] s"

definition swap_buffers :: "fluid \<Rightarrow> fluid" where
  "swap_buffers s = s\<lparr>n0 := n1 s, n1 := n0 s\<rparr>"

text \<open>One call of \<open>simulate\<close>, with \<open>params.windSpeed\<close> as a parameter.\<close>

definition simulate :: "jsnum \<Rightarrow> fluid \<Rightarrow> fluid" where
  "simulate windSpeed s = swap_buffers (reset_solid (stream (collide windSpeed s)))"

text \<open>The arrays as the component allocates them.\<close>

definition well_sized :: "fluid \<Rightarrow> bool" where
  "well_sized s =
     (length (n0 s) = ROWS * COLS * Q \<and> length (n1 s) = ROWS * COLS * Q \<and>
      length (density s) = ROWS * COLS \<and> length (ux s) = ROWS * COLS \<and>
      length (uy s) = ROWS * COLS \<and> length (barrier s) = ROWS * COLS)"

section \<open>The states of the fluid engine\<close>

text \<open>
  The arrays as the component allocates them: typed arrays of the grid's size, all zero.
\<close>

definition fresh_state :: fluid where
  "fresh_state =
     \<lparr>n0 = replicate (ROWS * COLS * Q) (Fin 0),
      n1 = replicate (ROWS * COLS * Q) (Fin 0),
      density = replicate (ROWS * COLS) (Fin 0),
      ux = replicate (ROWS * COLS) (Fin 0),
      uy = replicate (ROWS * COLS) (Fin 0),
      barrier = replicate (ROWS * COLS) 0\<rparr>"

text \<open>
  \<open>initFluid\<close>: both population buffers get the lattice weight of each entry's direction,
  the barrier is cleared. (Its two assignments per index touch different arrays, so the one
  loop is two folds; the tracers are not part of the model.)
\<close>

definition initFluid :: "fluid \<Rightarrow> fluid" where
  "initFluid s =
     (let size = ROWS * COLS * Q
      in s\<lparr>n0 := fold (\<lambda>i m. m[i := rd w (i mod Q)]) [0..<size] (n0 s),
            n1 := fold (\<lambda>i m. m[i := rd w (i mod Q)]) [0..<size] (n1 s),
            barrier := replicate (length (barrier s)) 0\<rparr>)"

text \<open>
  The states the engine goes through: the arrays as allocated, then any sequence of
  \<open>initFluid\<close>, of \<open>rasterizePolygon\<close> on the grid's dimensions (which replaces the barrier)
  and of \<open>simulate\<close>. The wind speed comes from a range slider through \<open>parseInt\<close>: a finite
  number.
\<close>

inductive engine_state :: "fluid \<Rightarrow> bool" where
  allocated: "engine_state fresh_state"
| reset: "engine_state s \<Longrightarrow> engine_state (initFluid s)"
| shape: "engine_state s \<Longrightarrow>
          rasterizePolygon polygon (int COLS) (int ROWS) (barrier s) = Some b \<Longrightarrow>
          engine_state (s\<lparr>barrier := b\<rparr>)"
| step: "engine_state s \<Longrightarrow> engine_state (simulate (Fin windSpeed) s)"

text \<open>
  Concrete states. \<open>rest_state\<close> is the state \<open>initFluid\<close> leaves on the arrays as allocated:
  every cell holds the lattice weights, no cell is solid. \<open>wrap_state\<close> has the cell in
  column 5 of the bottom row solid and the cell in column 5 of the top row filled with unit
  populations.
\<close>

definition rest_state :: fluid where
  "rest_state =
     \<lparr>n0 = map (\<lambda>i. rd w (i mod Q)) [0..<ROWS * COLS * Q],
      n1 = map (\<lambda>i. rd w (i mod Q)) [0..<ROWS * COLS * Q],
      density = replicate (ROWS * COLS) (Fin 0),
      ux = replicate (ROWS * COLS) (Fin 0),
      uy = replicate (ROWS * COLS) (Fin 0),
      barrier = replicate (ROWS * COLS) 0\<rparr>"

definition wrap_state :: fluid where
  "wrap_state =
     rest_state\<lparr>n0 := map (\<lambda>k. if k div Q = 5 then Fin 1 else rd w (k mod Q))
                          [0..<ROWS * COLS * Q],
                barrier := (replicate (ROWS * COLS) 0)[(ROWS - 1) * COLS + 5 := 1]\<rparr>"

section \<open>Notions used in the proofs\<close>

text \<open>Arrays of the grid's size whose populations are all finite numbers.\<close>

definition healthy :: "fluid \<Rightarrow> bool" where
  "healthy s = (well_sized s \<and> list_all is_finite (n0 s) \<and> list_all is_finite (n1 s))"

text \<open>A bounding box whose lower bounds are not \<open>Infinity\<close> and upper bounds not \<open>-Infinity\<close>.\<close>

definition box_ok :: "jsnum \<times> jsnum \<times> jsnum \<times> jsnum \<Rightarrow> bool" where
  "box_ok t = (case t of (a, b, c, d) \<Rightarrow>
      a \<noteq> NaN \<and> a \<noteq> PInf \<and> b \<noteq> NaN \<and> b \<noteq> NInf \<and> c \<noteq> NaN \<and> c \<noteq> PInf \<and> d \<noteq> NaN \<and> d \<noteq> NInf)"

text \<open>Two population arrays agree on the nine entries of the cell \<open>idx\<close> and in length.\<close>

definition slot_eq :: "nat \<Rightarrow> jsnum list \<Rightarrow> jsnum list \<Rightarrow> bool" where
  "slot_eq idx n n' =
     (length n = length n' \<and> (\<forall>i<Q. rd n (idx * Q + i) = rd n' (idx * Q + i)))"

text \<open>What the collision of the cell \<open>idx\<close> reads and writes.\<close>

definition same_cell :: "nat \<Rightarrow> fluid \<Rightarrow> fluid \<Rightarrow> bool" where
  "same_cell idx s s' =
     (slot_eq idx (n0 s) (n0 s') \<and>
      length (density s) = length (density s') \<and> rd (density s) idx = rd (density s') idx \<and>
      length (ux s) = length (ux s') \<and> rd (ux s) idx = rd (ux s') idx \<and>
      length (uy s) = length (uy s') \<and> rd (uy s) idx = rd (uy s') idx \<and>
      solid (barrier s) idx = solid (barrier s') idx)"

definition cell_view ::
  "nat \<Rightarrow> fluid \<Rightarrow> (jsnum list \<times> nat) \<times> (jsnum \<times> nat) \<times> (jsnum \<times> nat) \<times> (jsnum \<times> nat) \<times> bool" where
  "cell_view idx s =
     ((map (\<lambda>i. rd (n0 s) (idx * Q + i)) [0..<Q], length (n0 s)),
      (rd (density s) idx, length (density s)),
      (rd (ux s) idx, length (ux s)),
      (rd (uy s) idx, length (uy s)),
      solid (barrier s) idx)"

text \<open>What the sweeps leave alone.\<close>

definition frame1 :: "fluid \<Rightarrow> nat list \<times> jsnum list \<times> nat \<times> nat \<times> nat \<times> nat" where
  "frame1 s = (barrier s, n1 s, length (n0 s), length (density s), length (ux s), length (uy s))"

definition frame2 :: "fluid \<Rightarrow> jsnum list \<times> nat list \<times> jsnum list \<times> jsnum list \<times> jsnum list \<times> nat" where
  "frame2 s = (n0 s, barrier s, density s, ux s, uy s, length (n1 s))"

text \<open>What streaming into the cell \<open>idx\<close> reads and writes.\<close>

definition n1_view :: "nat \<Rightarrow> fluid \<Rightarrow> jsnum list \<times> nat list \<times> jsnum list \<times> nat" where
  "n1_view idx s =
     (n0 s, barrier s, map (\<lambda>i. rd (n1 s) (idx * Q + i)) [0..<Q], length (n1 s))"

text \<open>The nine assignments to the entries of a cell, where \<open>inc i\<close> is the value assigned.\<close>

definition arrive :: "(nat \<Rightarrow> jsnum option) \<Rightarrow> nat \<Rightarrow> jsnum list \<Rightarrow> jsnum list" where
  "arrive inc b n = fold (\<lambda>i m. case inc i of Some v \<Rightarrow> m[b + i := v] | None \<Rightarrow> m) [0..<Q] n"

section \<open>Properties of the number model\<close>

lemma NaN_absorb [simp]:
  "x + NaN = NaN" "NaN + x = NaN" "x - NaN = NaN" "NaN - x = NaN"
  "x * NaN = NaN" "NaN * x = NaN" "x / NaN = NaN" "NaN / x = NaN"
  by (cases x; simp add: minus_jsnum_def)+

lemma not_less_NaN [simp]: "\<not> x < NaN" "\<not> NaN < x"
  by (cases x; simp)+

lemma truthy_not_NaN: "truthy a \<Longrightarrow> a \<noteq> NaN"
  by (cases a) simp_all

lemma js_or_not_NaN: "b \<noteq> NaN \<Longrightarrow> js_or a b \<noteq> NaN"
  by (auto simp: js_or_def dest: truthy_not_NaN)

lemma js_or_zero: "a \<noteq> NaN \<Longrightarrow> js_or a (Fin 0) = a"
  by (cases a) (simp_all add: js_or_def)

lemma rd_Cons: "rd [] i = NaN" "rd (v # vs) 0 = v" "rd (v # vs) (Suc i) = rd vs i"
  by (simp_all add: rd_def)

lemma js_set_Cons:
  "js_set [] 0 v = [v]" "js_set [] (Suc i) v = NaN # js_set [] i v"
  "js_set (u # us) 0 v = v # us" "js_set (u # us) (Suc i) v = u # js_set us i v"
  by (simp_all add: js_set_def)

lemmas array_eval = rd_Cons js_set_Cons upt_rec

lemmas elim_eval = elim_step_def find_pivot_def normalize_row_def eliminate_row_def

section \<open>Properties of the panel solver\<close>

lemma stall_degrees: "(\<bar>to_alpha (Fin a)\<bar> > stallAngle) = (15 < \<bar>a\<bar>)"
  by (simp add: to_alpha_def stallAngle_def PI_def abs_mult)

lemma solveLinearSystem_returns: "\<exists>g. solveLinearSystem A b = Inr g"
  by (simp add: solveLinearSystem_def Let_def)

subsection \<open>The folded plate: coincident control points\<close>

lemma folded_panels:
  "panels folded_plate =
     [(\<lparr>px = Fin 0, py = Fin 0\<rparr>, \<lparr>px = Fin 1, py = Fin 0\<rparr>),
      (\<lparr>px = Fin 1, py = Fin 0\<rparr>, \<lparr>px = Fin 0, py = Fin 0\<rparr>)]"
  by (simp add: panels_def folded_plate_def upt_rec)

lemma folded_theta: "theta (panels folded_plate) = [Fin 0, Fin pi]"
  by (simp add: theta_def folded_panels minus_jsnum_def atan2_real_def)

lemma folded_lengths: "panelLengths (panels folded_plate) = [Fin 1, Fin 1]"
  by (simp add: panelLengths_def folded_panels minus_jsnum_def)

lemma folded_control:
  "controlPoints (panels folded_plate) =
     [\<lparr>px = Fin (1 / 2), py = Fin 0\<rparr>, \<lparr>px = Fin (1 / 2), py = Fin 0\<rparr>]"
  by (simp add: controlPoints_def folded_panels)

lemma folded_count: "length folded_plate - 1 = Suc (Suc 0)"
  by (simp add: folded_plate_def)

lemma folded_nonempty: "folded_plate \<noteq> []"
  by (simp add: folded_plate_def)

text \<open>The off-diagonal entries are \<open>0 / 0\<close>: the influence matrix holds NaN.\<close>

lemma folded_matrix:
  "influence_matrix (controlPoints (panels folded_plate)) (panelLengths (panels folded_plate))
     (theta (panels folded_plate)) (Suc (Suc 0)) =
   [[Fin (1 / 2), NaN], [NaN, Fin (1 / 2)]]"
  by (simp add: folded_theta folded_lengths folded_control influence_matrix_def array_eval
      minus_jsnum_def PI_def)

lemma folded_elim_0:
  "elim_step (Suc (Suc 0)) 0 [[Fin (1 / 2), NaN, r0], [NaN, Fin (1 / 2), r1]] =
   [[Fin 1, NaN, r0 / Fin (1 / 2)], [NaN, NaN, NaN]]"
  by (simp add: elim_eval array_eval)

lemma folded_elim_1:
  "elim_step (Suc (Suc 0)) (Suc 0) [[Fin 1, NaN, q], [NaN, NaN, NaN]] =
   [[Fin 1, NaN, NaN], [NaN, NaN, NaN]]"
  by (simp add: elim_eval array_eval)

lemma folded_solve:
  "solveLinearSystem [[Fin (1 / 2), NaN], [NaN, Fin (1 / 2)]] [r0, r1] = Inr [NaN, NaN]"
  by (simp add: solveLinearSystem_def augment_def array_eval folded_elim_0 folded_elim_1)

lemma folded_gamma: "solve_gamma folded_plate speed alphaDeg = [NaN, NaN]"
proof -
  obtain r0 r1 where R:
    "influence_rhs speed (to_alpha alphaDeg) (theta (panels folded_plate)) (Suc (Suc 0)) = [r0, r1]"
    by (simp add: influence_rhs_def upt_rec)
  show ?thesis
    unfolding solve_gamma_def folded_count Let_def folded_matrix R
    by (simp add: folded_solve)
qed

lemma folded_Circulation: "Circulation folded_plate speed alphaDeg = NaN"
  unfolding Circulation_def folded_gamma folded_lengths folded_count Let_def
  by (simp add: array_eval)

lemma folded_Cl: "final_Cl folded_plate speed alphaDeg = NaN"
  by (simp add: final_Cl_def kutta_Cl_def folded_Circulation Let_def)

lemma folded_Cd:
  "\<not> \<bar>to_alpha alphaDeg\<bar> > stallAngle \<Longrightarrow> final_Cd folded_plate speed alphaDeg = NaN"
  by (simp add: final_Cd_def folded_Cl Let_def)

lemma folded_cpDist:
  "cpDist folded_plate speed alphaDeg =
     [\<lparr>cp_x = Fin (1 / 2), cp_val = NaN\<rparr>, \<lparr>cp_x = Fin (1 / 2), cp_val = NaN\<rparr>]"
  unfolding cpDist_def folded_gamma folded_control folded_count Let_def
  by (simp add: array_eval minus_jsnum_def)

subsection \<open>The corner: a regular system\<close>

lemma corner_panels:
  "panels corner =
     [(\<lparr>px = Fin 0, py = Fin 0\<rparr>, \<lparr>px = Fin 1, py = Fin 0\<rparr>),
      (\<lparr>px = Fin 1, py = Fin 0\<rparr>, \<lparr>px = Fin 1, py = Fin 1\<rparr>)]"
  by (simp add: panels_def corner_def upt_rec)

lemma corner_theta: "theta (panels corner) = [Fin 0, Fin (pi / 2)]"
  by (simp add: theta_def corner_panels minus_jsnum_def atan2_real_def)

lemma corner_lengths: "panelLengths (panels corner) = [Fin 1, Fin 1]"
  by (simp add: panelLengths_def corner_panels minus_jsnum_def)

lemma corner_control:
  "controlPoints (panels corner) =
     [\<lparr>px = Fin (1 / 2), py = Fin 0\<rparr>, \<lparr>px = Fin 1, py = Fin (1 / 2)\<rparr>]"
  by (simp add: controlPoints_def corner_panels)

lemma corner_count: "length corner - 1 = Suc (Suc 0)"
  by (simp add: corner_def)

lemma corner_nonempty: "corner \<noteq> []"
  by (simp add: corner_def)

lemma corner_matrix:
  "influence_matrix (controlPoints (panels corner)) (panelLengths (panels corner))
     (theta (panels corner)) (Suc (Suc 0)) =
   [[Fin (1 / 2), Fin (- (1 / (2 * pi)))], [Fin (1 / (2 * pi)), Fin (1 / 2)]]"
  by (simp add: corner_theta corner_lengths corner_control influence_matrix_def array_eval
      minus_jsnum_def PI_def)

lemma corner_rhs:
  "influence_rhs (Fin 45) (to_alpha (Fin 0)) (theta (panels corner)) (Suc (Suc 0)) =
   [Fin 0, Fin 45]"
  by (simp add: corner_theta influence_rhs_def array_eval to_alpha_def PI_def)

lemma pi_pivot: "\<not> (1 / 2 < 1 / (2 * pi))" "\<not> (1 < 1 / pi)"
  using pi_ge_two by (simp_all add: field_simps)

lemma corner_elim_0:
  "elim_step (Suc (Suc 0)) 0
     [[Fin (1 / 2), Fin (- (1 / (2 * pi))), Fin 0], [Fin (1 / (2 * pi)), Fin (1 / 2), Fin 45]] =
   [[Fin 1, Fin (- (1 / pi)), Fin 0], [Fin 0, Fin (1 / 2 + 1 / (2 * pi * pi)), Fin 45]]"
  by (simp add: elim_eval array_eval pi_pivot minus_jsnum_def)

lemma regular_elim_1:
  "d \<noteq> 0 \<Longrightarrow>
   elim_step (Suc (Suc 0)) (Suc 0) [[Fin 1, Fin b, Fin 0], [Fin 0, Fin d, Fin r]] =
   [[Fin 1, Fin 0, Fin (- (b * r / d))], [Fin 0, Fin 1, Fin (r / d)]]"
  by (simp add: elim_eval array_eval minus_jsnum_def)

lemma corner_pivot: "(1 / 2 + 1 / (2 * pi * pi) :: real) \<noteq> 0"
proof -
  have "(0::real) < 1 / (2 * pi * pi)" by simp
  then show ?thesis by linarith
qed

lemma corner_solve:
  "\<exists>g0 g1. solveLinearSystem
     [[Fin (1 / 2), Fin (- (1 / (2 * pi)))], [Fin (1 / (2 * pi)), Fin (1 / 2)]] [Fin 0, Fin 45] =
     Inr [Fin g0, Fin g1]"
  by (simp add: solveLinearSystem_def augment_def array_eval corner_elim_0
      regular_elim_1[OF corner_pivot])

lemma corner_Cl: "final_Cl corner (Fin 45) (Fin 0) \<noteq> NaN"
proof -
  obtain g0 g1 where
    "solveLinearSystem
       [[Fin (1 / 2), Fin (- (1 / (2 * pi)))], [Fin (1 / (2 * pi)), Fin (1 / 2)]] [Fin 0, Fin 45] =
     Inr [Fin g0, Fin g1]"
    using corner_solve by blast
  then have G: "solve_gamma corner (Fin 45) (Fin 0) = [Fin g0, Fin g1]"
    unfolding solve_gamma_def corner_count Let_def corner_matrix corner_rhs by simp
  have C: "Circulation corner (Fin 45) (Fin 0) = Fin (g0 + g1)"
    unfolding Circulation_def G corner_lengths corner_count Let_def by (simp add: array_eval)
  show ?thesis
    by (simp add: final_Cl_def kutta_Cl_def C Let_def to_alpha_def PI_def stallAngle_def
        pixelChord_def)
qed


subsection \<open>Claims on the panel solver\<close>

text \<open>
  C1, evaluated on the folded plate at speed 10 and angle 0. Its influence matrix is
  degenerate (the off-diagonal entries are NaN), the solver returns without raising, so the
  \<open>catch\<close> branch with the all-zero vector is not taken: the vortex strengths are NaN, and
  the returned record has lift 0 and drag 0.01 from the \<open>||\<close> guards but a NaN moment
  coefficient and NaN pressure coefficients.
\<close>

theorem folded_plate_no_fallback:
  "solve_gamma folded_plate (Fin 10) (Fin 0) = [NaN, NaN] \<and>
   calculatePhysics folded_plate (Fin 10) (Fin 0) (Fin 1) =
     Inr \<lparr>liftCoefficient = Fin 0, dragCoefficient = Fin 0.01, momentCoefficient = NaN,
          reynoldsNumber = Fin 10 * Fin 0.2 / Fin 0.0000146,
          cpDistribution =
            [\<lparr>cp_x = Fin 0.5, cp_val = NaN\<rparr>, \<lparr>cp_x = Fin 0.5, cp_val = NaN\<rparr>],
          centerOfPressure = Fin 0.25\<rparr>"
  by (simp add: folded_gamma calculatePhysics_def folded_nonempty folded_Cl folded_Cd
      stall_degrees folded_cpDist js_or_def sort_cp_def Reynolds_def REAL_CHORD_def
      KINEMATIC_VISCOSITY_def minus_jsnum_def Let_def)

lemma form_factor_pos: "(0::real) < 31 / 25 + 60 * (3 / 25) ^ 4"
  by (intro add_pos_pos mult_pos_pos zero_less_power) simp_all

lemma stalled_Cd_at_rest: "15 < \<bar>a\<bar> \<Longrightarrow> final_Cd shape (Fin 0) (Fin a) = PInf"
  apply (simp add: final_Cd_def stall_degrees Let_def Reynolds_def REAL_CHORD_def
      KINEMATIC_VISCOSITY_def)
  apply (simp add: to_alpha_def PI_def is_int_def form_factor_pos)
  done

lemma wedge_nonempty: "wedge \<noteq> []"
  by (simp add: wedge_def)

text \<open>
  C2, as stated, fails for an infinite coefficient: at speed 0 the Reynolds number is 0, the
  skin-friction term is \<open>0.074 / 0 = Infinity\<close>, and beyond the stall angle the drag
  coefficient stays infinite; \<open>Cd || 0.01\<close> returns it unchanged.
\<close>

theorem infinite_drag_returned:
  "3 \<le> length wedge \<and>
   \<not> is_finite (final_Cd wedge (Fin 0) (Fin 20)) \<and>
   map_sum id dragCoefficient (calculatePhysics wedge (Fin 0) (Fin 20) (Fin 1)) = Inr PInf"
proof -
  have "3 \<le> length wedge" by (simp add: wedge_def)
  then show ?thesis
    by (simp add: calculatePhysics_def wedge_nonempty stalled_Cd_at_rest js_or_def Let_def)
qed

lemma js_or_lift: "js_or a (Fin 0) = (if a = NaN then Fin 0 else a)"
  by (cases a) (simp_all add: js_or_def)

lemma js_or_drag: "js_or a (Fin 0.01) = (if a = NaN \<or> a = Fin 0 then Fin 0.01 else a)"
  by (cases a) (simp_all add: js_or_def)

text \<open>
  C2, amended: for every polygon with at least 3 vertices and every speed and angle,
  \<open>calculatePhysics\<close> returns a complete record without raising. The returned lift
  coefficient is the computed one, except that a computed NaN is replaced by 0; the returned
  drag coefficient is the computed one, except that a computed NaN or 0 is replaced by 0.01.
  So neither is ever NaN, and an infinite computed value is returned unchanged.
\<close>

theorem physics_total_nan_guard:
  assumes "3 \<le> length shape"
  shows "\<exists>r. calculatePhysics shape speed alphaDeg chordLength = Inr r \<and>
             liftCoefficient r \<noteq> NaN \<and> dragCoefficient r \<noteq> NaN \<and>
             (final_Cl shape speed alphaDeg = NaN \<longrightarrow> liftCoefficient r = Fin 0) \<and>
             (final_Cd shape speed alphaDeg = NaN \<longrightarrow> dragCoefficient r = Fin 0.01) \<and>
             liftCoefficient r =
               (if final_Cl shape speed alphaDeg = NaN then Fin 0
                else final_Cl shape speed alphaDeg) \<and>
             dragCoefficient r =
               (if final_Cd shape speed alphaDeg = NaN \<or> final_Cd shape speed alphaDeg = Fin 0
                then Fin 0.01 else final_Cd shape speed alphaDeg) \<and>
             (final_Cd shape speed alphaDeg = PInf \<or> final_Cd shape speed alphaDeg = NInf \<longrightarrow>
                dragCoefficient r = final_Cd shape speed alphaDeg)"
proof -
  from assms have ne: "shape \<noteq> []" by auto
  let ?r = "\<lparr>liftCoefficient = js_or (final_Cl shape speed alphaDeg) (Fin 0),
             dragCoefficient = js_or (final_Cd shape speed alphaDeg) (Fin 0.01),
             momentCoefficient = Fin (- 0.25) * final_Cl shape speed alphaDeg,
             reynoldsNumber = Reynolds speed,
             cpDistribution = sort_cp (cpDist shape speed alphaDeg),
             centerOfPressure = Fin 0.25\<rparr>"
  have r: "calculatePhysics shape speed alphaDeg chordLength = Inr ?r"
    using ne by (simp add: calculatePhysics_def Let_def)
  have l: "liftCoefficient ?r =
      (if final_Cl shape speed alphaDeg = NaN then Fin 0 else final_Cl shape speed alphaDeg)"
    using js_or_lift[of "final_Cl shape speed alphaDeg"] by simp
  have d: "dragCoefficient ?r =
      (if final_Cd shape speed alphaDeg = NaN \<or> final_Cd shape speed alphaDeg = Fin 0
       then Fin 0.01 else final_Cd shape speed alphaDeg)"
    using js_or_drag[of "final_Cd shape speed alphaDeg"] by simp
  have "liftCoefficient ?r \<noteq> NaN" "dragCoefficient ?r \<noteq> NaN"
    by (simp_all add: js_or_not_NaN)
  moreover have "final_Cl shape speed alphaDeg = NaN \<longrightarrow> liftCoefficient ?r = Fin 0"
    by (simp add: js_or_def)
  moreover have "final_Cd shape speed alphaDeg = NaN \<longrightarrow> dragCoefficient ?r = Fin 0.01"
    by (simp add: js_or_def)
  moreover have "final_Cd shape speed alphaDeg = PInf \<or> final_Cd shape speed alphaDeg = NInf \<longrightarrow>
      dragCoefficient ?r = final_Cd shape speed alphaDeg"
    by (auto simp: js_or_def)
  ultimately show ?thesis using r l d by blast
qed

theorem physics_total_nan_guard_witness:
  "3 \<le> length folded_plate \<and>
   final_Cl folded_plate (Fin 38) (Fin 8) = NaN \<and>
   final_Cd folded_plate (Fin 38) (Fin 8) = NaN \<and>
   (\<exists>r. calculatePhysics folded_plate (Fin 38) (Fin 8) (Fin 1) = Inr r \<and>
        liftCoefficient r = Fin 0 \<and> dragCoefficient r = Fin 0.01) \<and>
   3 \<le> length wedge \<and>
   final_Cd wedge (Fin 0) (Fin 20) = PInf \<and>
   (\<exists>r. calculatePhysics wedge (Fin 0) (Fin 20) (Fin 1) = Inr r \<and> dragCoefficient r = PInf)"
proof -
  have len: "3 \<le> length folded_plate" by (simp add: folded_plate_def)
  have len': "3 \<le> length wedge" by (simp add: wedge_def)
  have cd: "final_Cd folded_plate (Fin 38) (Fin 8) = NaN"
    by (rule folded_Cd) (simp add: stall_degrees)
  have cd': "final_Cd wedge (Fin 0) (Fin 20) = PInf"
    by (rule stalled_Cd_at_rest) simp
  have "\<exists>r. calculatePhysics folded_plate (Fin 38) (Fin 8) (Fin 1) = Inr r \<and>
        liftCoefficient r = Fin 0 \<and> dragCoefficient r = Fin 0.01"
    using physics_total_nan_guard[OF len, of "Fin 38" "Fin 8" "Fin 1"] cd folded_Cl by auto
  moreover have "\<exists>r. calculatePhysics wedge (Fin 0) (Fin 20) (Fin 1) = Inr r \<and>
        dragCoefficient r = PInf"
    using physics_total_nan_guard[OF len', of "Fin 0" "Fin 20" "Fin 1"] cd' by auto
  ultimately show ?thesis using len len' cd cd' folded_Cl by blast
qed

text \<open>
  C3, as stated, fails when the computed lift coefficient is NaN: the returned lift is then
  0 while the moment coefficient is \<open>-0.25 * NaN = NaN\<close>. On the folded plate at speed 45
  and angle 5:
\<close>

theorem moment_not_quarter_of_lift:
  "map_sum id momentCoefficient (calculatePhysics folded_plate (Fin 45) (Fin 5) (Fin 1)) =
     Inr NaN \<and>
   map_sum id liftCoefficient (calculatePhysics folded_plate (Fin 45) (Fin 5) (Fin 1)) =
     Inr (Fin 0) \<and>
   NaN \<noteq> Fin (- 0.25) * Fin 0"
  by (simp add: calculatePhysics_def folded_nonempty folded_Cl js_or_def Let_def)

text \<open>
  C3, amended: for every invocation on a non-empty shape, the returned moment coefficient is
  \<open>-0.25\<close> times the lift coefficient computed before the \<open>|| 0\<close> substitution, hence
  \<open>-0.25\<close> times the returned lift coefficient whenever that computed value is not NaN, and
  the returned centre-of-pressure fraction is exactly 0.25.
\<close>

theorem moment_quarter_chord:
  assumes "shape \<noteq> []"
  shows "\<exists>r. calculatePhysics shape speed alphaDeg chordLength = Inr r \<and>
             momentCoefficient r = Fin (- 0.25) * final_Cl shape speed alphaDeg \<and>
             centerOfPressure r = Fin 0.25 \<and>
             (final_Cl shape speed alphaDeg \<noteq> NaN \<longrightarrow>
                momentCoefficient r = Fin (- 0.25) * liftCoefficient r)"
  using assms by (simp add: calculatePhysics_def Let_def js_or_zero)

theorem moment_quarter_chord_witness:
  "corner \<noteq> [] \<and> final_Cl corner (Fin 45) (Fin 0) \<noteq> NaN \<and>
   (\<exists>r. calculatePhysics corner (Fin 45) (Fin 0) (Fin 1) = Inr r \<and>
        momentCoefficient r = Fin (- 0.25) * liftCoefficient r \<and>
        centerOfPressure r = Fin 0.25)"
  using moment_quarter_chord[OF corner_nonempty, of "Fin 45" "Fin 0" "Fin 1"]
    corner_nonempty corner_Cl
  by auto

text \<open>
  C4: for every non-empty shape the returned Reynolds number is the speed times the fixed
  reference chord 0.2 divided by the fixed kinematic viscosity 1.460e-5; the polygon does
  not occur in it.
\<close>

theorem reynolds_fixed_chord:
  assumes "shape \<noteq> []"
  shows "\<exists>r. calculatePhysics shape speed alphaDeg chordLength = Inr r \<and>
             reynoldsNumber r = speed * Fin 0.2 / Fin 0.0000146"
  using assms
  by (simp add: calculatePhysics_def Let_def Reynolds_def REAL_CHORD_def KINEMATIC_VISCOSITY_def)

theorem reynolds_fixed_chord_witness:
  "wedge \<noteq> [] \<and>
   (\<exists>r. calculatePhysics wedge (Fin 45) (Fin 5) (Fin 1) = Inr r \<and>
        reynoldsNumber r = Fin 45 * Fin 0.2 / Fin 0.0000146)"
  using reynolds_fixed_chord[OF wedge_nonempty, of "Fin 45" "Fin 5" "Fin 1"] wedge_nonempty
  by simp

text \<open>
  C5: for an angle of \<open>a\<close> degrees, the lift coefficient is the Kutta-Joukowski value
  \<open>2 * Circulation / (speed * 200)\<close> multiplied by \<open>cos \<alpha> * 0.8\<close> when \<open>|a| > 15\<close>, and that
  value itself when \<open>|a| \<le> 15\<close>; the returned record carries it (through \<open>|| 0\<close> in the lift
  field, times \<open>-0.25\<close> in the moment field).
\<close>

theorem stall_correction:
  "kutta_Cl shape speed (Fin a) =
     Fin 2 * Circulation shape speed (Fin a) / (speed * Fin 200) \<and>
   (15 < \<bar>a\<bar> \<longrightarrow>
      final_Cl shape speed (Fin a) =
        kutta_Cl shape speed (Fin a) * (js_cos (Fin a * (PI / Fin 180)) * Fin 0.8)) \<and>
   (\<bar>a\<bar> \<le> 15 \<longrightarrow> final_Cl shape speed (Fin a) = kutta_Cl shape speed (Fin a)) \<and>
   (shape \<noteq> [] \<longrightarrow>
      (\<exists>r. calculatePhysics shape speed (Fin a) chordLength = Inr r \<and>
           liftCoefficient r = js_or (final_Cl shape speed (Fin a)) (Fin 0) \<and>
           momentCoefficient r = Fin (- 0.25) * final_Cl shape speed (Fin a)))"
proof -
  have "final_Cl shape speed (Fin a) =
      (if 15 < \<bar>a\<bar>
       then kutta_Cl shape speed (Fin a) * (js_cos (to_alpha (Fin a)) * Fin 0.8)
       else kutta_Cl shape speed (Fin a))"
    unfolding final_Cl_def Let_def stall_degrees ..
  then show ?thesis
    by (simp add: kutta_Cl_def pixelChord_def calculatePhysics_def Let_def to_alpha_def
        del: times_jsnum.simps divide_jsnum.simps)
qed

theorem stall_correction_witness:
  "15 < \<bar>20 :: real\<bar> \<and> \<bar>5 :: real\<bar> \<le> 15 \<and> wedge \<noteq> [] \<and>
   final_Cl wedge (Fin 45) (Fin 20) =
     kutta_Cl wedge (Fin 45) (Fin 20) * (js_cos (Fin 20 * (PI / Fin 180)) * Fin 0.8) \<and>
   final_Cl wedge (Fin 45) (Fin 5) = kutta_Cl wedge (Fin 45) (Fin 5) \<and>
   (\<exists>r. calculatePhysics wedge (Fin 45) (Fin 5) (Fin 1) = Inr r \<and>
        liftCoefficient r = js_or (final_Cl wedge (Fin 45) (Fin 5)) (Fin 0))"
  using stall_correction[of wedge "Fin 45" 20 "Fin 1"] stall_correction[of wedge "Fin 45" 5 "Fin 1"]
    wedge_nonempty
  by auto

text \<open>
  C10: the fourth argument \<open>chordLength\<close> has no effect: two invocations that differ only in
  it return the same result.
\<close>

theorem chordLength_unused:
  "calculatePhysics shape speed alphaDeg chordLength1 =
   calculatePhysics shape speed alphaDeg chordLength2"
  by (simp add: calculatePhysics_def)

section \<open>Properties of the rasterizer\<close>

lemma less_shape: "(p::jsnum) < m \<Longrightarrow> p \<noteq> NaN \<and> p \<noteq> PInf \<and> m \<noteq> NaN \<and> m \<noteq> NInf"
  by (cases p; cases m) simp_all

lemma bbox_fold_ok:
  "box_ok t \<Longrightarrow>
   box_ok (fold (\<lambda>p (minX, maxX, minY, maxY).
             (if px p < minX then px p else minX,
              if px p > maxX then px p else maxX,
              if py p < minY then py p else minY,
              if py p > maxY then py p else maxY)) ps t)"
proof (induction ps arbitrary: t)
  case Nil
  then show ?case by simp
next
  case (Cons p ps)
  obtain a b c d where t: "t = (a, b, c, d)" by (cases t) auto
  show ?case
    unfolding fold_Cons o_apply
    apply (rule Cons.IH)
    using Cons.prems less_shape[of "px p" a] less_shape[of b "px p"] less_shape[of "py p" c] less_shape[of d "py p"]
    by (auto simp: t box_ok_def)
qed

lemma bbox_ok: "box_ok (bbox gp (Fin gw) (Fin gh))"
  unfolding bbox_def by (rule bbox_fold_ok) (simp add: box_ok_def)

lemma lower_bound_fin: "a \<noteq> NaN \<Longrightarrow> a \<noteq> PInf \<Longrightarrow> \<exists>r. js_max (Fin 0) (js_floor a) = Fin r"
  by (cases a) (simp_all add: js_max_def)

lemma upper_bound_fin: "b \<noteq> NaN \<Longrightarrow> b \<noteq> NInf \<Longrightarrow> \<exists>r. js_min (Fin g - Fin 1) (js_ceil b) = Fin r"
  by (cases b) (simp_all add: js_min_def minus_jsnum_def)

lemma length_mark_solid: "length (mark_solid b y x) = length b"
  by (simp add: mark_solid_def Let_def)

lemma length_mark_row:
  "length (fold (\<lambda>x b2. if P x then mark_solid b2 y x else b2) xs b1) = length b1"
  by (induction xs arbitrary: b1) (simp_all add: length_mark_solid)

lemma length_mark_rows:
  "length (fold (\<lambda>y b1. fold (\<lambda>x b2. if P x y then mark_solid b2 y x else b2) xs b1) ys b0) = length b0"
  by (induction ys arbitrary: b0) (simp_all add: length_mark_row)

lemma rasterize_terminates:
  "\<exists>m. rasterizePolygon polygon gw gh b = Some m \<and> length m = length b"
proof (cases "length polygon < 3")
  case True
  then show ?thesis by (simp add: rasterizePolygon_def)
next
  case False
  define gp where "gp = map (\<lambda>p. \<lparr>px = px p / SCALE, py = py p / SCALE\<rparr>) polygon"
  obtain a b' c d where bb: "bbox gp (Fin (of_int gw)) (Fin (of_int gh)) = (a, b', c, d)"
    by (cases "bbox gp (Fin (of_int gw)) (Fin (of_int gh))") auto
  have ok: "box_ok (a, b', c, d)" using bbox_ok[of gp "of_int gw" "of_int gh"] bb by simp
  obtain x0 where x0: "js_max (Fin 0) (js_floor a) = Fin x0"
    using ok lower_bound_fin[of a] by (auto simp: box_ok_def)
  obtain x1 where x1: "js_min (Fin (of_int gw) - Fin 1) (js_ceil b') = Fin x1"
    using ok upper_bound_fin[of b'] by (auto simp: box_ok_def)
  obtain y0 where y0: "js_max (Fin 0) (js_floor c) = Fin y0"
    using ok lower_bound_fin[of c] by (auto simp: box_ok_def)
  obtain y1 where y1: "js_min (Fin (of_int gh) - Fin 1) (js_ceil d) = Fin y1"
    using ok upper_bound_fin[of d] by (auto simp: box_ok_def)
  show ?thesis
    using False
    by (simp add: rasterizePolygon_def Let_def gp_def[symmetric] bb x0 x1 y0 y1 length_mark_rows)
qed

lemma fold_invariant:
  assumes "I s" "\<And>a t. I t \<Longrightarrow> I (f a t)"
  shows "I (fold f xs s)"
  using assms(1) by (induction xs arbitrary: s) (simp_all add: assms(2))






section \<open>Sweeps over the grid\<close>

text \<open>
  Each of the three double loops of \<open>simulate\<close> visits every cell once, and the body for a
  cell writes only what belongs to that cell. So what the sweep leaves in a cell is what the
  body for that cell makes of the state the sweep started from.
\<close>

lemma fold_others:
  assumes "\<And>a s. a \<in> set as \<Longrightarrow> obs (g a s) = obs s"
  shows "obs (fold g as s) = obs s"
  using assms by (induction as arbitrary: s) simp_all

lemma upt_split: "k < n \<Longrightarrow> [0..<n] = [0..<k] @ k # [Suc k..<n]"
proof -
  assume k: "k < n"
  have "[0..<k + (n - k)] = [0..<k] @ [k..<k + (n - k)]"
    by (rule upt_add_eq_append) simp
  with k show ?thesis
    by (simp add: upt_conv_Cons)
qed

lemma sweep_all:
  assumes "\<And>y x s. obs (f y x s) = obs s"
  shows "obs (fold (\<lambda>y. fold (\<lambda>x. f y x) [0..<C]) [0..<R] s) = obs s"
  by (rule fold_others) (rule fold_others, rule assms)

lemma sweep_cell:
  assumes others: "\<And>y x s. y < R \<Longrightarrow> x < C \<Longrightarrow> (y, x) \<noteq> (y0, x0) \<Longrightarrow> obs (f y x s) = obs s"
    and local: "\<And>s s'. obs s = obs s' \<Longrightarrow> obs (f y0 x0 s) = obs (f y0 x0 s')"
    and y0: "y0 < R" and x0: "x0 < C"
  shows "obs (fold (\<lambda>y. fold (\<lambda>x. f y x) [0..<C]) [0..<R] s) = obs (f y0 x0 s)"
proof -
  have row_other: "obs (fold (\<lambda>x. f y x) [0..<C] t) = obs t" if "y < R" "y \<noteq> y0" for y t
    by (rule fold_others) (use that others in auto)
  have row_own: "obs (fold (\<lambda>x. f y0 x) [0..<C] t) = obs (f y0 x0 s)" if "obs t = obs s" for t
  proof -
    have pre: "obs (fold (\<lambda>x. f y0 x) [0..<x0] t) = obs t"
      by (rule fold_others) (use others y0 x0 in auto)
    have "obs (fold (\<lambda>x. f y0 x) [0..<C] t) =
          obs (fold (\<lambda>x. f y0 x) [Suc x0..<C] (f y0 x0 (fold (\<lambda>x. f y0 x) [0..<x0] t)))"
      by (simp add: upt_split[OF x0])
    also have "\<dots> = obs (f y0 x0 (fold (\<lambda>x. f y0 x) [0..<x0] t))"
      by (rule fold_others) (use others y0 in auto)
    also have "\<dots> = obs (f y0 x0 s)"
      by (rule local) (simp add: pre that)
    finally show ?thesis .
  qed
  let ?row = "\<lambda>y. fold (\<lambda>x. f y x) [0..<C]"
  have pre: "obs (fold ?row [0..<y0] s) = obs s"
    by (rule fold_others) (use row_other y0 in auto)
  have "obs (fold ?row [0..<R] s) = obs (fold ?row [Suc y0..<R] (?row y0 (fold ?row [0..<y0] s)))"
    by (simp add: upt_split[OF y0])
  also have "\<dots> = obs (?row y0 (fold ?row [0..<y0] s))"
    by (rule fold_others) (use row_other in auto)
  also have "\<dots> = obs (f y0 x0 s)"
    by (rule row_own) (rule pre)
  finally show ?thesis .
qed

lemma rd_update: "rd (xs[i := v]) k = (if k = i \<and> k < length xs then v else rd xs k)"
  by (simp add: rd_def)

lemma update_rd_id: "m[k := rd m k] = m"
  by (cases "k < length m") (simp_all add: rd_def list_update_beyond)

lemma fold_slot_length:
  "length (fold (\<lambda>i m. m[b + i := h i (rd m (b + i))]) [0..<q] n) = length n"
  by (induction q) simp_all

lemma fold_slot_rd:
  "rd (fold (\<lambda>i m. m[b + i := h i (rd m (b + i))]) [0..<q] n) k =
     (if b \<le> k \<and> k < b + q \<and> k < length n then h (k - b) (rd n k) else rd n k)"
proof (induction q arbitrary: k)
  case 0
  then show ?case by auto
next
  case (Suc q)
  let ?F = "fold (\<lambda>i m. m[b + i := h i (rd m (b + i))]) [0..<q] n"
  have len: "length ?F = length n" by (rule fold_slot_length)
  have at: "rd ?F (b + q) = rd n (b + q)" using Suc[of "b + q"] by simp
  have "rd (fold (\<lambda>i m. m[b + i := h i (rd m (b + i))]) [0..<Suc q] n) k =
        (if k = b + q \<and> k < length n then h q (rd n (b + q)) else rd ?F k)"
    by (simp add: rd_update len at)
  then show ?case using Suc[of k] by auto
qed

section \<open>The collision sweep\<close>

lemma cell_view_eq: "(cell_view idx s = cell_view idx s') = same_cell idx s s'"
  by (auto simp: cell_view_def same_cell_def slot_eq_def)

lemma slot_eq_refl: "slot_eq idx n n"
  by (simp add: slot_eq_def)

lemma slot_eq_trans: "slot_eq idx a b \<Longrightarrow> slot_eq idx b c \<Longrightarrow> slot_eq idx a c"
  by (simp add: slot_eq_def)

lemma length_relax [simp]: "length (relax idx d u v n) = length n"
  unfolding relax_def
  using fold_slot_length[where h = "\<lambda>i old. old + omega * (eq_dist i d u v - old)"
      and b = "idx * Q" and q = Q and n = n]
  by simp

lemma rd_relax:
  "rd (relax idx d u v n) k =
     (if idx * Q \<le> k \<and> k < idx * Q + Q \<and> k < length n
      then rd n k + omega * (eq_dist (k - idx * Q) d u v - rd n k) else rd n k)"
  unfolding relax_def
  using fold_slot_rd[where h = "\<lambda>i old. old + omega * (eq_dist i d u v - old)"
      and b = "idx * Q" and q = Q and n = n and k = k]
  by simp

lemma length_impose_eq [simp]: "length (impose_eq idx d u v n) = length n"
  unfolding impose_eq_def
  using fold_slot_length[where h = "\<lambda>i old. eq_dist i d u v" and b = "idx * Q" and q = Q and n = n]
  by simp

lemma rd_impose_eq:
  "rd (impose_eq idx d u v n) k =
     (if idx * Q \<le> k \<and> k < idx * Q + Q \<and> k < length n
      then eq_dist (k - idx * Q) d u v else rd n k)"
  unfolding impose_eq_def
  using fold_slot_rd[where h = "\<lambda>i old. eq_dist i d u v" and b = "idx * Q" and q = Q
      and n = n and k = k]
  by simp

lemma slot_disjoint:
  "idx \<noteq> idx0 \<Longrightarrow> i < Q \<Longrightarrow> \<not> (idx * Q \<le> idx0 * Q + i \<and> idx0 * Q + i < idx * Q + Q)"
  unfolding Q_def by arith

lemma cell_index_inj:
  "x < COLS \<Longrightarrow> x0 < COLS \<Longrightarrow> (y, x) \<noteq> (y0, x0) \<Longrightarrow> y * COLS + x \<noteq> y0 * COLS + x0"
  unfolding COLS_def by (cases "y = y0") auto

lemma relax_other: "idx \<noteq> idx0 \<Longrightarrow> slot_eq idx0 (relax idx d u v n) n"
  using slot_disjoint[of idx idx0] by (auto simp: slot_eq_def rd_relax)

lemma impose_other: "idx \<noteq> idx0 \<Longrightarrow> slot_eq idx0 (impose_eq idx d u v n) n"
  using slot_disjoint[of idx idx0] by (auto simp: slot_eq_def rd_impose_eq)

lemma relax_cong: "slot_eq idx n n' \<Longrightarrow> slot_eq idx (relax idx d u v n) (relax idx d u v n')"
  by (simp add: slot_eq_def rd_relax)

lemma impose_cong: "slot_eq idx n n' \<Longrightarrow> slot_eq idx (impose_eq idx d u v n) (impose_eq idx d u v n')"
  by (simp add: slot_eq_def rd_impose_eq)

lemma moments_cong:
  assumes "slot_eq idx n n'"
  shows "moments n idx = moments n' idx"
  unfolding moments_def
  by (rule fold_cong) (use assms in \<open>auto simp: slot_eq_def\<close>)

lemma macroscopic_other:
  assumes "macroscopic u0 x n idx = (d, u, v, m)" "idx \<noteq> idx0"
  shows "slot_eq idx0 m n"
proof (cases "x = 0")
  case True
  with assms(1) have "m = impose_eq idx (Fin 1) u0 (Fin 0) n"
    by (auto simp: macroscopic_def Let_def split: prod.splits)
  then show ?thesis using assms(2) by (simp add: impose_other)
next
  case False
  with assms(1) have "m = n"
    by (auto simp: macroscopic_def Let_def split: prod.splits)
  then show ?thesis by (simp add: slot_eq_refl)
qed

lemma macroscopic_cong:
  assumes "slot_eq idx n n'" "macroscopic u0 x n idx = (d, u, v, m)"
    "macroscopic u0 x n' idx = (d', u', v', m')"
  shows "d = d' \<and> u = u' \<and> v = v' \<and> slot_eq idx m m'"
proof -
  have mom: "moments n idx = moments n' idx" by (rule moments_cong) (rule assms(1))
  show ?thesis
  proof (cases "x = 0")
    case True
    with assms(2,3) have "m = impose_eq idx (Fin 1) u0 (Fin 0) n" "m' = impose_eq idx (Fin 1) u0 (Fin 0) n'"
      "d = d'" "u = u'" "v = v'"
      by (auto simp: macroscopic_def Let_def split: prod.splits)
    then show ?thesis using assms(1) by (simp add: impose_cong)
  next
    case False
    with assms(2,3) mom have "m = n" "m' = n'" "d = d'" "u = u'" "v = v'"
      by (auto simp: macroscopic_def Let_def split: prod.splits)
    then show ?thesis using assms(1) by simp
  qed
qed

lemma same_cell_refl: "same_cell idx s s"
  by (simp add: same_cell_def slot_eq_refl)

lemma collide_cell_solid: "solid (barrier s) (y * COLS + x) \<Longrightarrow> collide_cell u0 y x s = s"
  by (simp add: collide_cell_def)

lemma collide_cell_fluid:
  assumes "\<not> solid (barrier s) (y * COLS + x)"
    and "macroscopic u0 x (n0 s) (y * COLS + x) = (d, u, v, m)"
  shows "collide_cell u0 y x s =
         s\<lparr>density := (density s)[y * COLS + x := d], ux := (ux s)[y * COLS + x := u],
           uy := (uy s)[y * COLS + x := v], n0 := relax (y * COLS + x) d u v m\<rparr>"
  using assms by (simp add: collide_cell_def Let_def)

lemma collide_cell_other:
  assumes "y * COLS + x \<noteq> idx0"
  shows "same_cell idx0 (collide_cell u0 y x s) s"
proof (cases "solid (barrier s) (y * COLS + x)")
  case True
  then show ?thesis by (simp add: collide_cell_solid same_cell_refl)
next
  case False
  obtain d u v m where mac: "macroscopic u0 x (n0 s) (y * COLS + x) = (d, u, v, m)"
    by (cases "macroscopic u0 x (n0 s) (y * COLS + x)") auto
  have "slot_eq idx0 (relax (y * COLS + x) d u v m) (n0 s)"
    using relax_other[OF assms] macroscopic_other[OF mac assms] by (rule slot_eq_trans)
  then show ?thesis
    using assms by (simp add: collide_cell_fluid[OF False mac] same_cell_def rd_update)
qed

lemma collide_cell_local:
  assumes "same_cell (y * COLS + x) s s'"
  shows "same_cell (y * COLS + x) (collide_cell u0 y x s) (collide_cell u0 y x s')"
proof (cases "solid (barrier s) (y * COLS + x)")
  case True
  with assms have "solid (barrier s') (y * COLS + x)" by (simp add: same_cell_def)
  with True assms show ?thesis by (simp add: collide_cell_solid)
next
  case False
  with assms have False': "\<not> solid (barrier s') (y * COLS + x)" by (simp add: same_cell_def)
  obtain d u v m where mac: "macroscopic u0 x (n0 s) (y * COLS + x) = (d, u, v, m)"
    by (cases "macroscopic u0 x (n0 s) (y * COLS + x)") auto
  obtain d' u' v' m' where mac': "macroscopic u0 x (n0 s') (y * COLS + x) = (d', u', v', m')"
    by (cases "macroscopic u0 x (n0 s') (y * COLS + x)") auto
  from assms have "slot_eq (y * COLS + x) (n0 s) (n0 s')" by (simp add: same_cell_def)
  from macroscopic_cong[OF this mac mac']
  have eq: "d = d'" "u = u'" "v = v'" and sl: "slot_eq (y * COLS + x) m m'" by auto
  have "slot_eq (y * COLS + x) (relax (y * COLS + x) d u v m) (relax (y * COLS + x) d u v m')"
    using sl by (rule relax_cong)
  then show ?thesis
    using assms eq
    by (simp add: collide_cell_fluid[OF False mac] collide_cell_fluid[OF False' mac']
        same_cell_def rd_update)
qed

lemma collide_view:
  assumes "y < ROWS" "x < COLS"
  shows "same_cell (y * COLS + x) (collide windSpeed s)
           (collide_cell (inflow_u0 windSpeed) y x s)"
proof -
  have "cell_view (y * COLS + x) (collide windSpeed s) =
        cell_view (y * COLS + x) (collide_cell (inflow_u0 windSpeed) y x s)"
    unfolding collide_def
  proof (rule sweep_cell[where obs = "cell_view (y * COLS + x)"])
    fix y' x' t
    assume "y' < ROWS" "x' < COLS" "(y', x') \<noteq> (y, x)"
    then have "y' * COLS + x' \<noteq> y * COLS + x"
      using assms(2) by (simp add: cell_index_inj)
    then show "cell_view (y * COLS + x) (collide_cell (inflow_u0 windSpeed) y' x' t) =
               cell_view (y * COLS + x) t"
      by (simp add: cell_view_eq collide_cell_other)
  next
    fix t t'
    assume "cell_view (y * COLS + x) t = cell_view (y * COLS + x) t'"
    then show "cell_view (y * COLS + x) (collide_cell (inflow_u0 windSpeed) y x t) =
               cell_view (y * COLS + x) (collide_cell (inflow_u0 windSpeed) y x t')"
      by (simp add: cell_view_eq collide_cell_local)
  qed (use assms in auto)
  then show ?thesis by (simp add: cell_view_eq)
qed

lemma collide_cell_frame:
  "barrier (collide_cell u0 y x s) = barrier s \<and> n1 (collide_cell u0 y x s) = n1 s \<and>
   length (n0 (collide_cell u0 y x s)) = length (n0 s) \<and>
   length (density (collide_cell u0 y x s)) = length (density s) \<and>
   length (ux (collide_cell u0 y x s)) = length (ux s) \<and>
   length (uy (collide_cell u0 y x s)) = length (uy s)"
proof (cases "solid (barrier s) (y * COLS + x)")
  case True
  then show ?thesis by (simp add: collide_cell_solid)
next
  case False
  obtain d u v m where mac: "macroscopic u0 x (n0 s) (y * COLS + x) = (d, u, v, m)"
    by (cases "macroscopic u0 x (n0 s) (y * COLS + x)") auto
  have "length m = length (n0 s)"
    using macroscopic_other[OF mac, of "Suc (y * COLS + x)"] by (simp add: slot_eq_def)
  then show ?thesis by (simp add: collide_cell_fluid[OF False mac])
qed

lemma collide_frame: "frame1 (collide windSpeed s) = frame1 s"
  unfolding collide_def
  by (rule sweep_all) (simp add: frame1_def collide_cell_frame)

section \<open>The streaming and reset sweeps\<close>

lemma n1_view_eq:
  "(n1_view idx s = n1_view idx s') =
     (n0 s = n0 s' \<and> barrier s = barrier s' \<and> slot_eq idx (n1 s) (n1 s'))"
  by (auto simp: n1_view_def slot_eq_def)

lemma arrive_slot:
  "arrive inc b n =
     fold (\<lambda>i m. m[b + i := (case inc i of Some v \<Rightarrow> v | None \<Rightarrow> rd m (b + i))]) [0..<Q] n"
proof -
  have "(\<lambda>i m. case inc i of Some v \<Rightarrow> m[b + i := v] | None \<Rightarrow> m) =
        (\<lambda>i m. m[b + i := (case inc i of Some v \<Rightarrow> v | None \<Rightarrow> rd m (b + i))])"
    by (auto simp: fun_eq_iff update_rd_id split: option.splits)
  then show ?thesis by (simp add: arrive_def)
qed

lemma length_arrive [simp]: "length (arrive inc b n) = length n"
  unfolding arrive_slot
  using fold_slot_length[where h = "\<lambda>i old. case inc i of Some v \<Rightarrow> v | None \<Rightarrow> old"
      and b = b and q = Q and n = n]
  by simp

lemma rd_arrive:
  "rd (arrive inc b n) k =
     (if b \<le> k \<and> k < b + Q \<and> k < length n
      then (case inc (k - b) of Some v \<Rightarrow> v | None \<Rightarrow> rd n k) else rd n k)"
  unfolding arrive_slot
  using fold_slot_rd[where h = "\<lambda>i old. case inc i of Some v \<Rightarrow> v | None \<Rightarrow> old"
      and b = b and q = Q and n = n and k = k]
  by simp

lemma arrive_other: "idx \<noteq> idx0 \<Longrightarrow> slot_eq idx0 (arrive inc (idx * Q) n) n"
  using slot_disjoint[of idx idx0] by (auto simp: slot_eq_def rd_arrive)

lemma arrive_cong: "slot_eq idx n n' \<Longrightarrow> slot_eq idx (arrive inc (idx * Q) n) (arrive inc (idx * Q) n')"
  by (auto simp: slot_eq_def rd_arrive split: option.splits)

lemma stream_cell_eq:
  "stream_cell y x s =
     (if solid (barrier s) (y * COLS + x) then s
      else s\<lparr>n1 := arrive (incoming s y x) ((y * COLS + x) * Q) (n1 s)\<rparr>)"
  by (simp add: stream_cell_def arrive_def Let_def)

lemma reset_cell_eq:
  "reset_cell y x s =
     (if solid (barrier s) (y * COLS + x)
      then s\<lparr>n1 := arrive (\<lambda>i. Some (rd w i)) ((y * COLS + x) * Q) (n1 s)\<rparr>
      else s)"
  by (simp add: reset_cell_def arrive_def Let_def)

lemma incoming_cong:
  assumes "n0 s = n0 s'" "barrier s = barrier s'"
  shows "incoming s y x i = incoming s' y x i"
  unfolding incoming_def assms ..

lemma stream_cell_other:
  "y * COLS + x \<noteq> idx0 \<Longrightarrow> n1_view idx0 (stream_cell y x s) = n1_view idx0 s"
  by (simp add: n1_view_eq stream_cell_eq arrive_other slot_eq_refl)

lemma stream_cell_local:
  assumes "n1_view (y * COLS + x) s = n1_view (y * COLS + x) s'"
  shows "n1_view (y * COLS + x) (stream_cell y x s) = n1_view (y * COLS + x) (stream_cell y x s')"
proof -
  from assms have a: "n0 s = n0 s'" "barrier s = barrier s'"
    "slot_eq (y * COLS + x) (n1 s) (n1 s')"
    by (simp_all add: n1_view_eq)
  have "incoming s y x = incoming s' y x"
    by (rule ext) (rule incoming_cong[OF a(1,2)])
  then show ?thesis
    using a by (simp add: n1_view_eq stream_cell_eq arrive_cong)
qed

lemma reset_cell_other:
  "y * COLS + x \<noteq> idx0 \<Longrightarrow> n1_view idx0 (reset_cell y x s) = n1_view idx0 s"
  by (simp add: n1_view_eq reset_cell_eq arrive_other slot_eq_refl)

lemma reset_cell_local:
  assumes "n1_view (y * COLS + x) s = n1_view (y * COLS + x) s'"
  shows "n1_view (y * COLS + x) (reset_cell y x s) = n1_view (y * COLS + x) (reset_cell y x s')"
  using assms by (simp add: n1_view_eq reset_cell_eq arrive_cong)

lemma stream_view:
  assumes "y < ROWS" "x < COLS"
  shows "n1_view (y * COLS + x) (stream s) = n1_view (y * COLS + x) (stream_cell y x s)"
  unfolding stream_def
proof (rule sweep_cell[where obs = "n1_view (y * COLS + x)"])
  fix y' x' t
  assume "y' < ROWS" "x' < COLS" "(y', x') \<noteq> (y, x)"
  then have "y' * COLS + x' \<noteq> y * COLS + x"
    using assms(2) by (simp add: cell_index_inj)
  then show "n1_view (y * COLS + x) (stream_cell y' x' t) = n1_view (y * COLS + x) t"
    by (rule stream_cell_other)
next
  fix t t'
  assume "n1_view (y * COLS + x) t = n1_view (y * COLS + x) t'"
  then show "n1_view (y * COLS + x) (stream_cell y x t) = n1_view (y * COLS + x) (stream_cell y x t')"
    by (rule stream_cell_local)
qed (use assms in auto)

lemma reset_view:
  assumes "y < ROWS" "x < COLS"
  shows "n1_view (y * COLS + x) (reset_solid s) = n1_view (y * COLS + x) (reset_cell y x s)"
  unfolding reset_solid_def
proof (rule sweep_cell[where obs = "n1_view (y * COLS + x)"])
  fix y' x' t
  assume "y' < ROWS" "x' < COLS" "(y', x') \<noteq> (y, x)"
  then have "y' * COLS + x' \<noteq> y * COLS + x"
    using assms(2) by (simp add: cell_index_inj)
  then show "n1_view (y * COLS + x) (reset_cell y' x' t) = n1_view (y * COLS + x) t"
    by (rule reset_cell_other)
next
  fix t t'
  assume "n1_view (y * COLS + x) t = n1_view (y * COLS + x) t'"
  then show "n1_view (y * COLS + x) (reset_cell y x t) = n1_view (y * COLS + x) (reset_cell y x t')"
    by (rule reset_cell_local)
qed (use assms in auto)

lemma stream_frame: "frame2 (stream s) = frame2 s"
  unfolding stream_def
  by (rule sweep_all) (simp add: frame2_def stream_cell_eq)

lemma reset_frame: "frame2 (reset_solid s) = frame2 s"
  unfolding reset_solid_def
  by (rule sweep_all) (simp add: frame2_def reset_cell_eq)

section \<open>One simulation step\<close>

lemma cell_in_grid: "y < ROWS \<Longrightarrow> x < COLS \<Longrightarrow> y * COLS + x < ROWS * COLS"
  unfolding ROWS_def COLS_def by arith

lemma slot_bound: "a < n \<Longrightarrow> i < q \<Longrightarrow> a * q + i < n * (q::nat)"
proof -
  assume a: "a < n" and i: "i < q"
  have "a * q + i < Suc a * q" using i by simp
  also have "\<dots> \<le> n * q" using a by (intro mult_le_mono1) simp
  finally show ?thesis .
qed

lemma slot_in_grid:
  "y < ROWS \<Longrightarrow> x < COLS \<Longrightarrow> i < Q \<Longrightarrow> (y * COLS + x) * Q + i < ROWS * COLS * Q"
  by (rule slot_bound) (rule cell_in_grid)

lemma rd_nth: "k < length xs \<Longrightarrow> rd xs k = xs ! k"
  by (simp add: rd_def)

lemma slot_eq_rd: "slot_eq idx n n' \<Longrightarrow> i < Q \<Longrightarrow> rd n (idx * Q + i) = rd n' (idx * Q + i)"
  by (simp add: slot_eq_def)

lemma simulate_n0: "n0 (simulate windSpeed s) = n1 (reset_solid (stream (collide windSpeed s)))"
  by (simp add: simulate_def swap_buffers_def)

lemma simulate_velocity:
  "ux (simulate windSpeed s) = ux (collide windSpeed s) \<and>
   uy (simulate windSpeed s) = uy (collide windSpeed s) \<and>
   density (simulate windSpeed s) = density (collide windSpeed s) \<and>
   barrier (simulate windSpeed s) = barrier s"
  using reset_frame[of "stream (collide windSpeed s)"] stream_frame[of "collide windSpeed s"]
    collide_frame[of windSpeed s]
  by (simp add: simulate_def swap_buffers_def frame2_def frame1_def)

lemma collide_cell_values:
  assumes "well_sized s" "y < ROWS" "x < COLS" "\<not> solid (barrier s) (y * COLS + x)"
    and mac: "macroscopic (inflow_u0 windSpeed) x (n0 s) (y * COLS + x) = (d, u, v, m)"
  shows "density (collide windSpeed s) ! (y * COLS + x) = d"
    and "ux (collide windSpeed s) ! (y * COLS + x) = u"
    and "uy (collide windSpeed s) ! (y * COLS + x) = v"
    and "i < Q \<Longrightarrow> n0 (collide windSpeed s) ! ((y * COLS + x) * Q + i) =
           rd (relax (y * COLS + x) d u v m) ((y * COLS + x) * Q + i)"
proof -
  let ?idx = "y * COLS + x"
  let ?c = "collide windSpeed s"
  have in_grid: "?idx < ROWS * COLS" using assms(2,3) by (rule cell_in_grid)
  have len: "length (n0 ?c) = ROWS * COLS * Q" "length (density ?c) = ROWS * COLS"
    "length (ux ?c) = ROWS * COLS" "length (uy ?c) = ROWS * COLS"
    using collide_frame[of windSpeed s] assms(1) by (simp_all add: frame1_def well_sized_def)
  have same: "same_cell ?idx ?c (collide_cell (inflow_u0 windSpeed) y x s)"
    using assms(2,3) by (rule collide_view)
  note cell = collide_cell_fluid[OF assms(4) mac]
  show "density ?c ! ?idx = d"
    using same in_grid len assms(1)
    by (simp add: same_cell_def cell rd_update rd_nth well_sized_def)
  show "ux ?c ! ?idx = u"
    using same in_grid len assms(1)
    by (simp add: same_cell_def cell rd_update rd_nth well_sized_def)
  show "uy ?c ! ?idx = v"
    using same in_grid len assms(1)
    by (simp add: same_cell_def cell rd_update rd_nth well_sized_def)
  show "n0 ?c ! (?idx * Q + i) = rd (relax ?idx d u v m) (?idx * Q + i)" if "i < Q"
  proof -
    have "?idx * Q + i < ROWS * COLS * Q" using assms(2,3) that by (rule slot_in_grid)
    then have "n0 ?c ! (?idx * Q + i) = rd (n0 ?c) (?idx * Q + i)"
      by (simp add: rd_nth len)
    also have "\<dots> = rd (n0 (collide_cell (inflow_u0 windSpeed) y x s)) (?idx * Q + i)"
      using same that by (simp add: same_cell_def slot_eq_rd)
    finally show ?thesis by (simp add: cell)
  qed
qed

lemma collide_solid_cell:
  assumes "well_sized s" "y < ROWS" "x < COLS" "solid (barrier s) (y * COLS + x)" "i < Q"
  shows "n0 (collide windSpeed s) ! ((y * COLS + x) * Q + i) = n0 s ! ((y * COLS + x) * Q + i)"
proof -
  let ?idx = "y * COLS + x"
  let ?c = "collide windSpeed s"
  have k: "?idx * Q + i < ROWS * COLS * Q" using assms(2,3,5) by (rule slot_in_grid)
  have len: "length (n0 ?c) = ROWS * COLS * Q"
    using collide_frame[of windSpeed s] assms(1) by (simp_all add: frame1_def well_sized_def)
  have same: "same_cell ?idx ?c (collide_cell (inflow_u0 windSpeed) y x s)"
    using assms(2,3) by (rule collide_view)
  have "n0 ?c ! (?idx * Q + i) = rd (n0 ?c) (?idx * Q + i)"
    using k by (simp add: rd_nth len)
  also have "\<dots> = rd (n0 s) (?idx * Q + i)"
    using same assms(4,5) by (simp add: same_cell_def slot_eq_rd collide_cell_solid)
  finally show ?thesis using k assms(1) by (simp add: rd_nth well_sized_def)
qed

lemma streamed_population:
  assumes "y < ROWS" "x < COLS" "i < Q" "(y * COLS + x) * Q + i < length (n1 t)"
  shows "rd (n1 (reset_solid (stream t))) ((y * COLS + x) * Q + i) =
         (if solid (barrier t) (y * COLS + x) then rd w i
          else case incoming t y x i of Some v \<Rightarrow> v | None \<Rightarrow> rd (n1 t) ((y * COLS + x) * Q + i))"
proof -
  let ?idx = "y * COLS + x"
  let ?k = "?idx * Q + i"
  have fr: "barrier (stream t) = barrier t" "length (n1 (stream t)) = length (n1 t)"
    using stream_frame[of t] by (simp_all add: frame2_def)
  have st: "rd (n1 (stream t)) ?k = rd (n1 (stream_cell y x t)) ?k"
    using stream_view[OF assms(1,2), of t] assms(3) by (simp add: n1_view_eq slot_eq_rd)
  have "rd (n1 (reset_solid (stream t))) ?k = rd (n1 (reset_cell y x (stream t))) ?k"
    using reset_view[OF assms(1,2), of "stream t"] assms(3) by (simp add: n1_view_eq slot_eq_rd)
  also have "\<dots> = (if solid (barrier t) ?idx then rd w i else rd (n1 (stream t)) ?k)"
    using assms(3,4) by (simp add: reset_cell_eq fr rd_arrive)
  also have "\<dots> = (if solid (barrier t) ?idx then rd w i
          else case incoming t y x i of Some v \<Rightarrow> v | None \<Rightarrow> rd (n1 t) ?k)"
    using assms(3,4) by (simp add: st stream_cell_eq rd_arrive)
  finally show ?thesis .
qed

lemma simulate_population:
  assumes "well_sized s" "y < ROWS" "x < COLS" "i < Q"
  shows "n0 (simulate windSpeed s) ! ((y * COLS + x) * Q + i) =
         (if solid (barrier s) (y * COLS + x) then rd w i
          else case incoming (collide windSpeed s) y x i of
                 Some v \<Rightarrow> v
               | None \<Rightarrow> n1 s ! ((y * COLS + x) * Q + i))"
proof -
  let ?c = "collide windSpeed s"
  let ?k = "(y * COLS + x) * Q + i"
  have k: "?k < ROWS * COLS * Q" using assms(2,3,4) by (rule slot_in_grid)
  have fr: "barrier ?c = barrier s" "n1 ?c = n1 s"
    using collide_frame[of windSpeed s] by (simp_all add: frame1_def)
  have len: "length (n1 s) = ROWS * COLS * Q" using assms(1) by (simp add: well_sized_def)
  have len': "length (n1 (reset_solid (stream ?c))) = ROWS * COLS * Q"
    using reset_frame[of "stream ?c"] stream_frame[of ?c] by (simp add: frame2_def fr len)
  have "n0 (simulate windSpeed s) ! ?k = rd (n1 (reset_solid (stream ?c))) ?k"
    using k by (simp add: simulate_n0 rd_nth len')
  also have "\<dots> = (if solid (barrier ?c) (y * COLS + x) then rd w i
          else case incoming ?c y x i of Some v \<Rightarrow> v | None \<Rightarrow> rd (n1 ?c) ?k)"
    by (rule streamed_population) (use assms k in \<open>simp_all add: fr len\<close>)
  finally have "n0 (simulate windSpeed s) ! ?k =
      (if solid (barrier ?c) (y * COLS + x) then rd w i
       else case incoming ?c y x i of Some v \<Rightarrow> v | None \<Rightarrow> rd (n1 ?c) ?k)" .
  moreover have "rd (n1 ?c) ?k = n1 s ! ?k" using k by (simp add: fr rd_nth len)
  ultimately show ?thesis by (simp only: fr)
qed

section \<open>Claims on the fluid engine\<close>

subsection \<open>The velocity clamp\<close>

lemma finite_Fin: "is_finite v \<Longrightarrow> \<exists>r. v = Fin r"
  by (cases v) auto

lemma moments_fold_finite:
  assumes "\<forall>i\<in>set js. is_finite (rd n (idx * Q + i))"
  shows "\<exists>a' b' c'.
           fold (\<lambda>i (d, u_x, u_y).
                   let f = rd n (idx * Q + i)
                   in (d + f, u_x + f * exn i, u_y + f * eyn i)) js (Fin a, Fin b, Fin c) =
           (Fin a', Fin b', Fin c')"
  using assms
proof (induction js arbitrary: a b c)
  case Nil
  then show ?case by simp
next
  case (Cons j js)
  then obtain r where r: "rd n (idx * Q + j) = Fin r"
    using finite_Fin[of "rd n (idx * Q + j)"] by auto
  from Cons.prems have rest: "\<forall>i\<in>set js. is_finite (rd n (idx * Q + i))" by simp
  show ?case
    using Cons.IH[OF rest] by (simp add: r exn_def eyn_def)
qed

lemma moments_finite:
  assumes "\<forall>i<Q. is_finite (rd n (idx * Q + i))"
  shows "\<exists>a b c. moments n idx = (Fin a, Fin b, Fin c)"
  unfolding moments_def
  by (rule moments_fold_finite) (use assms in auto)

lemma clamp_u_value:
  "clamp_u (Fin q) = Fin (if 0.35 < q then 0.35 else if q < - 0.35 then - 0.35 else q)"
  by (simp add: clamp_u_def Let_def)

lemma clamp_u_bound: "\<bar>clamp_u (Fin q)\<bar> \<le> Fin 0.35"
proof -
  have "\<bar>if 0.35 < q then 0.35 else if q < - 0.35 then - 0.35 else q\<bar> \<le> (0.35::real)"
    by (simp; linarith)
  then show ?thesis unfolding clamp_u_value by simp
qed

lemma macroscopic_clamped:
  assumes "x \<noteq> 0" "\<forall>i<Q. is_finite (rd n (idx * Q + i))"
    and mac: "macroscopic u0 x n idx = (d, u, v, m)"
  shows "\<bar>u\<bar> \<le> Fin 0.35 \<and> \<bar>v\<bar> \<le> Fin 0.35"
proof -
  obtain a b c where mom: "moments n idx = (Fin a, Fin b, Fin c)"
    using moments_finite[OF assms(2)] by blast
  have "\<exists>p q. u = clamp_u (Fin p) \<and> v = clamp_u (Fin q)"
  proof (cases "a < 0.01")
    case True
    with mac assms(1) show ?thesis
      by (auto simp: macroscopic_def mom Let_def)
  next
    case False
    then have "a \<noteq> 0" by auto
    with False mac assms(1) show ?thesis
      by (auto simp: macroscopic_def mom Let_def)
  qed
  then obtain p q where "u = clamp_u (Fin p)" "v = clamp_u (Fin q)" by blast
  then show ?thesis using clamp_u_bound[of p] clamp_u_bound[of q] by simp
qed

lemma velocity_clamp_finite:
  assumes "well_sized s" "y < ROWS" "x < COLS" "x \<noteq> 0"
    and "\<not> solid (barrier s) (y * COLS + x)"
    and "\<forall>i<Q. is_finite (n0 s ! ((y * COLS + x) * Q + i))"
  shows "\<bar>ux (simulate windSpeed s) ! (y * COLS + x)\<bar> \<le> Fin 0.35 \<and>
         \<bar>uy (simulate windSpeed s) ! (y * COLS + x)\<bar> \<le> Fin 0.35"
proof -
  let ?idx = "y * COLS + x"
  have fin: "\<forall>i<Q. is_finite (rd (n0 s) (?idx * Q + i))"
  proof (intro allI impI)
    fix i assume i: "i < Q"
    have "?idx * Q + i < ROWS * COLS * Q" using assms(2,3) i by (rule slot_in_grid)
    then show "is_finite (rd (n0 s) (?idx * Q + i))"
      using assms(1,6) i by (simp add: rd_nth well_sized_def)
  qed
  obtain d u v m where mac: "macroscopic (inflow_u0 windSpeed) x (n0 s) ?idx = (d, u, v, m)"
    by (cases "macroscopic (inflow_u0 windSpeed) x (n0 s) ?idx") auto
  have "ux (collide windSpeed s) ! ?idx = u" "uy (collide windSpeed s) ! ?idx = v"
    using collide_cell_values(2,3)[OF assms(1,2,3,5) mac] by simp_all
  then show ?thesis
    using macroscopic_clamped[OF assms(4) fin mac] by (simp add: simulate_velocity)
qed

lemma w_finite: "i < Q \<Longrightarrow> is_finite (rd w i)"
proof -
  assume "i < Q"
  then have "i < length w" by (simp add: Q_def w_def)
  then have "w ! i \<in> set w" by simp
  moreover have "\<forall>v\<in>set w. is_finite v" by (simp add: w_def)
  ultimately show ?thesis using \<open>i < length w\<close> by (simp add: rd_def)
qed

lemma well_sized_rest: "well_sized rest_state"
  by (simp add: well_sized_def rest_state_def)

lemma rest_fluid: "\<not> solid (barrier rest_state) k"
  by (simp add: solid_def rest_state_def)

lemma rest_population:
  assumes "y < ROWS" "x < COLS" "i < Q"
  shows "n0 rest_state ! ((y * COLS + x) * Q + i) = rd w i"
proof -
  have "(y * COLS + x) * Q + i < ROWS * COLS * Q" using assms by (rule slot_in_grid)
  then show ?thesis using assms(3) by (simp add: rest_state_def)
qed

subsection \<open>The edges of the grid and the bounce-back\<close>

lemma ey_range: "i < Q \<Longrightarrow> - 1 \<le> ey ! i \<and> ey ! i \<le> 1"
proof -
  assume "i < Q"
  then have "i < length ey" by (simp add: Q_def ey_def)
  then have "ey ! i \<in> set ey" by (rule nth_mem)
  moreover have "\<forall>e\<in>set ey. - 1 \<le> e \<and> e \<le> 1" by (simp add: ey_def)
  ultimately show ?thesis by blast
qed

lemma js_rem_nonneg: "0 \<le> a \<Longrightarrow> js_rem a b = a mod \<bar>b\<bar>"
  by (cases "a = 0") (simp_all add: js_rem_def)

lemma rd_w: "i < Q \<Longrightarrow> rd w i = w ! i"
  by (simp add: rd_def Q_def w_def)

lemma collide_n0_length: "well_sized s \<Longrightarrow> length (n0 (collide windSpeed s)) = ROWS * COLS * Q"
  using collide_frame[of windSpeed s] by (simp add: frame1_def well_sized_def)

lemma collide_barrier: "barrier (collide windSpeed s) = barrier s"
  using collide_frame[of windSpeed s] by (simp add: frame1_def)

lemma incoming_left:
  assumes "int x - ex ! i < 0" "0 \<le> int y - ey ! i" "int y - ey ! i < int ROWS"
  shows "incoming t y x i = Some (rd w i)"
  using assms by (simp add: incoming_def Let_def)

lemma incoming_wrap:
  assumes "int y - ey ! i < 0 \<or> int ROWS \<le> int y - ey ! i"
    "0 \<le> int x - ex ! i" "int x - ex ! i < int COLS" "i < Q"
  shows "incoming t y x i =
         Some (rd (n0 t) ((nat ((int y - ey ! i) mod int ROWS) * COLS + nat (int x - ex ! i)) * Q + i))"
proof -
  have nonneg: "0 \<le> int y - ey ! i + int ROWS"
    using ey_range[OF assms(4)] by (simp add: ROWS_def)
  have wrapY: "js_rem (int y - ey ! i + int ROWS) (int ROWS) = (int y - ey ! i) mod int ROWS"
    by (simp add: js_rem_nonneg[OF nonneg])
  have w0: "0 \<le> (int y - ey ! i) mod int ROWS" by (simp add: ROWS_def)
  have idx: "nat ((int y - ey ! i) mod int ROWS * int COLS + (int x - ex ! i)) =
             nat ((int y - ey ! i) mod int ROWS) * COLS + nat (int x - ex ! i)"
    using w0 assms(2) by (simp add: nat_add_distrib nat_mult_distrib)
  show ?thesis
    using assms(1,2,3) by (auto simp: incoming_def Let_def wrapY idx)
qed

lemma incoming_bounce:
  assumes "0 \<le> int x - ex ! i" "int x - ex ! i < int COLS"
    "0 \<le> int y - ey ! i" "int y - ey ! i < int ROWS"
    "solid (barrier t) (nat ((int y - ey ! i) * int COLS + (int x - ex ! i)))"
  shows "incoming t y x i = Some (rd (n0 t) ((y * COLS + x) * Q + opp ! i))"
  using assms by (simp add: incoming_def Let_def)

lemma grid_edges:
  assumes "well_sized s" "y < ROWS" "x < COLS" "i < Q"
    and "\<not> solid (barrier s) (y * COLS + x)"
  shows "(int x - ex ! i < 0 \<and> 0 \<le> int y - ey ! i \<and> int y - ey ! i < int ROWS \<longrightarrow>
            n0 (simulate windSpeed s) ! ((y * COLS + x) * Q + i) = w ! i) \<and>
         ((int y - ey ! i < 0 \<or> int ROWS \<le> int y - ey ! i) \<and>
          0 \<le> int x - ex ! i \<and> int x - ex ! i < int COLS \<longrightarrow>
            n0 (simulate windSpeed s) ! ((y * COLS + x) * Q + i) =
            n0 (collide windSpeed s) !
              ((nat ((int y - ey ! i) mod int ROWS) * COLS + nat (int x - ex ! i)) * Q + i))"
proof (intro conjI impI)
  assume "int x - ex ! i < 0 \<and> 0 \<le> int y - ey ! i \<and> int y - ey ! i < int ROWS"
  then have "incoming (collide windSpeed s) y x i = Some (rd w i)"
    by (simp add: incoming_left)
  then show "n0 (simulate windSpeed s) ! ((y * COLS + x) * Q + i) = w ! i"
    using assms by (simp add: simulate_population rd_w)
next
  let ?wy = "nat ((int y - ey ! i) mod int ROWS)"
  let ?sx = "nat (int x - ex ! i)"
  assume a: "(int y - ey ! i < 0 \<or> int ROWS \<le> int y - ey ! i) \<and>
          0 \<le> int x - ex ! i \<and> int x - ex ! i < int COLS"
  then have inc: "incoming (collide windSpeed s) y x i =
      Some (rd (n0 (collide windSpeed s)) ((?wy * COLS + ?sx) * Q + i))"
    using assms(4) by (simp add: incoming_wrap)
  have "?wy < ROWS" by (simp add: ROWS_def)
  moreover have "?sx < COLS" using a by linarith
  ultimately have "(?wy * COLS + ?sx) * Q + i < ROWS * COLS * Q"
    using assms(4) by (rule slot_in_grid)
  then have "rd (n0 (collide windSpeed s)) ((?wy * COLS + ?sx) * Q + i) =
             n0 (collide windSpeed s) ! ((?wy * COLS + ?sx) * Q + i)"
    by (simp add: rd_nth collide_n0_length[OF assms(1)])
  then show "n0 (simulate windSpeed s) ! ((y * COLS + x) * Q + i) =
             n0 (collide windSpeed s) ! ((?wy * COLS + ?sx) * Q + i)"
    using assms by (simp add: simulate_population inc)
qed

text \<open>
  C9, amended: during streaming, for every non-solid cell and every direction whose source
  cell lies beyond the left edge of the grid in a row of the grid, the incoming population
  is the lattice weight \<open>w[i]\<close> of that direction (the equilibrium at rest and unit density);
  for a direction whose source row lies beyond the top or bottom edge and whose source column
  is in the grid, the incoming population is the post-collision population of the source cell
  in the periodically wrapped row, when that cell is not solid.
\<close>

theorem edges_of_the_grid:
  assumes "well_sized s" "y < ROWS" "x < COLS" "i < Q"
    and "\<not> solid (barrier s) (y * COLS + x)"
  shows "(int x - ex ! i < 0 \<and> 0 \<le> int y - ey ! i \<and> int y - ey ! i < int ROWS \<longrightarrow>
            n0 (simulate windSpeed s) ! ((y * COLS + x) * Q + i) = w ! i) \<and>
         ((int y - ey ! i < 0 \<or> int ROWS \<le> int y - ey ! i) \<and>
          0 \<le> int x - ex ! i \<and> int x - ex ! i < int COLS \<and>
          \<not> solid (barrier s)
              (nat ((int y - ey ! i) mod int ROWS) * COLS + nat (int x - ex ! i)) \<longrightarrow>
            n0 (simulate windSpeed s) ! ((y * COLS + x) * Q + i) =
            n0 (collide windSpeed s) !
              ((nat ((int y - ey ! i) mod int ROWS) * COLS + nat (int x - ex ! i)) * Q + i))"
  using grid_edges[OF assms, of windSpeed] by blast

lemma bounce_back_in_grid:
  assumes "well_sized s" "y < ROWS" "x < COLS" "i < Q"
    and "\<not> solid (barrier s) (y * COLS + x)"
    and "0 \<le> int x - ex ! i" "int x - ex ! i < int COLS"
    and "0 \<le> int y - ey ! i" "int y - ey ! i < int ROWS"
    and "solid (barrier s) (nat ((int y - ey ! i) * int COLS + (int x - ex ! i)))"
  shows "n0 (simulate windSpeed s) ! ((y * COLS + x) * Q + i) =
         n0 (collide windSpeed s) ! ((y * COLS + x) * Q + opp ! i)"
proof -
  have "i < length opp" using assms(4) by (simp add: Q_def opp_def)
  then have "opp ! i \<in> set opp" by (rule nth_mem)
  moreover have "\<forall>j\<in>set opp. j < Q" by (simp add: opp_def Q_def)
  ultimately have "opp ! i < Q" by blast
  with assms(2,3) have "(y * COLS + x) * Q + opp ! i < ROWS * COLS * Q"
    by (rule slot_in_grid)
  then have "rd (n0 (collide windSpeed s)) ((y * COLS + x) * Q + opp ! i) =
             n0 (collide windSpeed s) ! ((y * COLS + x) * Q + opp ! i)"
    by (simp add: rd_nth collide_n0_length[OF assms(1)])
  moreover have "incoming (collide windSpeed s) y x i =
      Some (rd (n0 (collide windSpeed s)) ((y * COLS + x) * Q + opp ! i))"
    by (rule incoming_bounce) (use assms in \<open>simp_all add: collide_barrier\<close>)
  ultimately show ?thesis
    using assms by (simp add: simulate_population)
qed

lemma inflow_45: "inflow_u0 (Fin 45) = Fin (9 / 100)"
  by (simp add: inflow_u0_def js_min_def)

lemma w_1:
  "w ! 1 = Fin (1 / 9)" "w ! Suc 0 = Fin (1 / 9)" "rd w 1 = Fin (1 / 9)"
  "rd w (Suc 0) = Fin (1 / 9)" "rd w 2 = Fin (1 / 9)" "rd w 4 = Fin (1 / 9)"
  by (simp_all add: w_def rd_def)

lemma inflow_eq_1: "eq_dist (Suc 0) (Fin 1) (Fin (9 / 100)) (Fin 0) = Fin (12943 / 90000)"
  by (simp add: eq_dist_def Let_def exn_def eyn_def ex_def ey_def w_1 minus_jsnum_def)

text \<open>
  C9, as stated, fails at wind speed 45: the inflow velocity is 0.09, the inflow equilibrium
  of direction 1 is \<open>12943 / 90000\<close>, and the population that enters the cell in row 50 of
  the leftmost column from beyond the left edge is the lattice weight \<open>1 / 9\<close>.
\<close>

theorem left_edge_rest_weight:
  "\<not> solid (barrier rest_state) (50 * COLS + 0) \<and>
   int 0 - ex ! 1 < 0 \<and>
   n0 (simulate (Fin 45) rest_state) ! ((50 * COLS + 0) * Q + 1) = Fin (1 / 9) \<and>
   eq_dist 1 (Fin 1) (inflow_u0 (Fin 45)) (Fin 0) = Fin (12943 / 90000) \<and>
   n0 (simulate (Fin 45) rest_state) ! ((50 * COLS + 0) * Q + 1) \<noteq>
     eq_dist 1 (Fin 1) (inflow_u0 (Fin 45)) (Fin 0)"
proof -
  have r: "50 < ROWS" and c: "0 < COLS" and q: "1 < Q" by (simp_all add: ROWS_def COLS_def Q_def)
  have e: "int 0 - ex ! 1 < 0 \<and> 0 \<le> int 50 - ey ! 1 \<and> int 50 - ey ! 1 < int ROWS"
    by (simp add: ex_def ey_def ROWS_def)
  have "n0 (simulate (Fin 45) rest_state) ! ((50 * COLS + 0) * Q + 1) = w ! 1"
    using grid_edges[OF well_sized_rest r c q rest_fluid, of "Fin 45"] e by blast
  then show ?thesis
    using e by (simp add: w_1 inflow_45 inflow_eq_1 rest_fluid)
qed

theorem edges_of_the_grid_witness:
  "well_sized rest_state \<and> 50 < ROWS \<and> 0 < COLS \<and> 1 < Q \<and>
   \<not> solid (barrier rest_state) (50 * COLS + 0) \<and>
   int 0 - ex ! 1 < 0 \<and> 0 \<le> int 50 - ey ! 1 \<and> int 50 - ey ! 1 < int ROWS \<and>
   n0 (simulate (Fin 45) rest_state) ! ((50 * COLS + 0) * Q + 1) = w ! 1 \<and>
   0 < ROWS \<and> 20 < COLS \<and> 2 < Q \<and>
   \<not> solid (barrier rest_state) (0 * COLS + 20) \<and>
   int 0 - ey ! 2 < 0 \<and> 0 \<le> int 20 - ex ! 2 \<and> int 20 - ex ! 2 < int COLS \<and>
   \<not> solid (barrier rest_state)
       (nat ((int 0 - ey ! 2) mod int ROWS) * COLS + nat (int 20 - ex ! 2)) \<and>
   n0 (simulate (Fin 45) rest_state) ! ((0 * COLS + 20) * Q + 2) =
     n0 (collide (Fin 45) rest_state) !
       ((nat ((int 0 - ey ! 2) mod int ROWS) * COLS + nat (int 20 - ex ! 2)) * Q + 2)"
proof -
  have r: "50 < ROWS" and c: "0 < COLS" and q: "1 < Q" by (simp_all add: ROWS_def COLS_def Q_def)
  have r': "0 < ROWS" and c': "20 < COLS" and q': "2 < Q" by (simp_all add: ROWS_def COLS_def Q_def)
  have e: "int 0 - ex ! 1 < 0 \<and> 0 \<le> int 50 - ey ! 1 \<and> int 50 - ey ! 1 < int ROWS"
    by (simp add: ex_def ey_def ROWS_def)
  have e': "(int 0 - ey ! 2 < 0 \<or> int ROWS \<le> int 0 - ey ! 2) \<and>
      0 \<le> int 20 - ex ! 2 \<and> int 20 - ex ! 2 < int COLS"
    by (simp add: ex_def ey_def COLS_def)
  have e'': "int 0 - ey ! 2 < 0" by (simp add: ey_def)
  show ?thesis
    using edges_of_the_grid[OF well_sized_rest r c q rest_fluid, of "Fin 45"]
      edges_of_the_grid[OF well_sized_rest r' c' q' rest_fluid, of "Fin 45"]
      r c q r' c' q' e e' e'' well_sized_rest rest_fluid
    by blast
qed

lemma well_sized_wrap: "well_sized wrap_state"
  by (simp add: well_sized_def wrap_state_def rest_state_def)

lemma wrap_barrier:
  "solid (barrier wrap_state) (99 * COLS + 5)" "\<not> solid (barrier wrap_state) (0 * COLS + 5)"
  by (simp_all add: solid_def wrap_state_def ROWS_def COLS_def)

lemma wrap_population:
  "k < ROWS * COLS * Q \<Longrightarrow>
   n0 wrap_state ! k = (if k div Q = 5 then Fin 1 else rd w (k mod Q))"
  by (simp add: wrap_state_def)

lemma moments_explicit:
  assumes "\<And>i. i < Q \<Longrightarrow> rd n (idx * Q + i) = p i"
  shows "moments n idx =
         fold (\<lambda>i (d, u_x, u_y). let f = p i in (d + f, u_x + f * exn i, u_y + f * eyn i))
           [0..<Q] (Fin 0, Fin 0, Fin 0)"
  unfolding moments_def
  by (rule fold_cong) (use assms in auto)

lemma unit_moments:
  assumes "\<And>i. i < Q \<Longrightarrow> rd n (idx * Q + i) = Fin 1"
  shows "moments n idx = (Fin 9, Fin 0, Fin 0)"
proof -
  have "moments n idx =
        fold (\<lambda>i (d, u_x, u_y). let f = Fin 1 in (d + f, u_x + f * exn i, u_y + f * eyn i))
          [0..<Q] (Fin 0, Fin 0, Fin 0)"
    by (rule moments_explicit[where p = "\<lambda>i. Fin 1"]) (rule assms)
  also have "\<dots> = (Fin 9, Fin 0, Fin 0)"
    by (simp add: Q_def upt_rec exn_def eyn_def ex_def ey_def)
  finally show ?thesis .
qed

lemma wrap_cell_5:
  assumes "i < Q"
  shows "rd (n0 wrap_state) ((0 * COLS + 5) * Q + i) = Fin 1"
proof -
  have k: "(0 * COLS + 5) * Q + i < ROWS * COLS * Q"
    by (rule slot_in_grid) (use assms in \<open>simp_all add: ROWS_def COLS_def\<close>)
  have "length (n0 wrap_state) = ROWS * COLS * Q"
    using well_sized_wrap by (simp add: well_sized_def)
  then have "rd (n0 wrap_state) ((0 * COLS + 5) * Q + i) = n0 wrap_state ! ((0 * COLS + 5) * Q + i)"
    using k by (simp add: rd_nth)
  also have "\<dots> = Fin 1"
  proof -
    have "((0 * COLS + 5) * Q + i) div Q = 5" using assms by simp
    then show ?thesis unfolding wrap_population[OF k] by simp
  qed
  finally show ?thesis .
qed

lemma wrap_macroscopic:
  "macroscopic u0 5 (n0 wrap_state) (0 * COLS + 5) = (Fin 9, Fin 0, Fin 0, n0 wrap_state)"
  using unit_moments[of "n0 wrap_state" "0 * COLS + 5", OF wrap_cell_5]
  by (simp add: macroscopic_def clamp_u_value Let_def)

lemma unit_equilibrium: "eq_dist 4 (Fin 9) (Fin 0) (Fin 0) = Fin 1"
  by (simp add: eq_dist_def Let_def exn_def eyn_def ex_def ey_def w_1 minus_jsnum_def)

lemma omega_value: "omega = Fin (25 / 14)"
  by (simp add: omega_def Let_def)

text \<open>
  C8, evaluated on \<open>wrap_state\<close>. The fluid cell in column 5 of the top row holds, after the
  collision, the population 1 in direction 4, which heads across the periodic edge into the
  solid cell in column 5 of the bottom row. After the step its opposite direction 2 does not
  hold that population: it holds \<open>1 / 9\<close>, the direction-2 population of the solid cell. The
  branch for a source row outside the grid copies from the wrapped cell without the barrier
  test that the branch for a source inside the grid makes.
\<close>

theorem periodic_edge_leaks:
  "\<not> solid (barrier wrap_state) (0 * COLS + 5) \<and>
   solid (barrier wrap_state) (99 * COLS + 5) \<and>
   n0 (collide (Fin 45) wrap_state) ! ((0 * COLS + 5) * Q + 4) = Fin 1 \<and>
   n0 (collide (Fin 45) wrap_state) ! ((99 * COLS + 5) * Q + 2) = Fin (1 / 9) \<and>
   n0 (simulate (Fin 45) wrap_state) ! ((0 * COLS + 5) * Q + 2) = Fin (1 / 9)"
proof -
  have r0: "0 < ROWS" and r99: "99 < ROWS" and c: "5 < COLS" and q2: "2 < Q" and q4: "4 < Q"
    by (simp_all add: ROWS_def COLS_def Q_def)
  have k: "(99 * COLS + 5) * Q + 2 < ROWS * COLS * Q"
    using r99 c q2 by (rule slot_in_grid)
  have solid_pop: "n0 (collide (Fin 45) wrap_state) ! ((99 * COLS + 5) * Q + 2) = Fin (1 / 9)"
    unfolding collide_solid_cell[OF well_sized_wrap r99 c wrap_barrier(1) q2]
      wrap_population[OF k]
    by (simp add: COLS_def Q_def w_1)
  have "rd (relax (0 * COLS + 5) (Fin 9) (Fin 0) (Fin 0) (n0 wrap_state)) ((0 * COLS + 5) * Q + 4)
        = Fin 1"
    using wrap_cell_5[OF q4] well_sized_wrap q4
    by (simp add: rd_relax unit_equilibrium omega_value minus_jsnum_def well_sized_def
        ROWS_def COLS_def Q_def)
  then have fluid_pop: "n0 (collide (Fin 45) wrap_state) ! ((0 * COLS + 5) * Q + 4) = Fin 1"
    using collide_cell_values(4)[OF well_sized_wrap r0 c wrap_barrier(2) wrap_macroscopic q4,
        of "Fin 45"]
    by simp
  have e: "(int 0 - ey ! 2 < 0 \<or> int ROWS \<le> int 0 - ey ! 2) \<and>
      0 \<le> int 5 - ex ! 2 \<and> int 5 - ex ! 2 < int COLS"
    by (simp add: ex_def ey_def COLS_def)
  have src: "(nat ((int 0 - ey ! 2) mod int ROWS) * COLS + nat (int 5 - ex ! 2)) * Q + 2 =
             (99 * COLS + 5) * Q + 2"
    by (simp add: ex_def ey_def ROWS_def)
  have "n0 (simulate (Fin 45) wrap_state) ! ((0 * COLS + 5) * Q + 2) =
        n0 (collide (Fin 45) wrap_state) ! ((99 * COLS + 5) * Q + 2)"
    using grid_edges[OF well_sized_wrap r0 c q2 wrap_barrier(2), of "Fin 45"] e
    unfolding src by blast
  then show ?thesis
    using solid_pop fluid_pop wrap_barrier by simp
qed

subsection \<open>The velocity clamp on the states of the engine\<close>

lemma fold_invariant_mem:
  assumes "I s" "\<And>a t. a \<in> set xs \<Longrightarrow> I t \<Longrightarrow> I (f a t)"
  shows "I (fold f xs s)"
  using assms by (induction xs arbitrary: s) simp_all

lemma sweep_invariant:
  assumes "I s" "\<And>y x t. y < R \<Longrightarrow> x < C \<Longrightarrow> I t \<Longrightarrow> I (f y x t)"
  shows "I (fold (\<lambda>y. fold (\<lambda>x. f y x) [0..<C]) [0..<R] s)"
proof (rule fold_invariant_mem[where I = I])
  show "I s" by (rule assms(1))
next
  fix y t
  assume y: "y \<in> set [0..<R]" and t: "I t"
  show "I (fold (\<lambda>x. f y x) [0..<C] t)"
    by (rule fold_invariant_mem[where I = I]) (use y t assms(2) in auto)
qed

lemma is_finite_iff: "is_finite v = (\<exists>r. v = Fin r)"
  by (cases v) auto

lemma finite_arith:
  assumes "is_finite a" "is_finite b"
  shows "is_finite (a + b)" "is_finite (a - b)" "is_finite (a * b)"
  using assms by (auto simp: is_finite_iff minus_jsnum_def)

lemma rd_finite: "list_all is_finite n \<Longrightarrow> k < length n \<Longrightarrow> is_finite (rd n k)"
  by (simp add: rd_def list_all_length)

lemma update_finite:
  assumes "list_all is_finite n" "is_finite a"
  shows "list_all is_finite (n[k := a])"
proof -
  have "set (n[k := a]) \<subseteq> insert a (set n)" by (rule set_update_subset_insert)
  then show ?thesis using assms by (auto simp: list_all_iff)
qed

lemma fold_update_finite:
  assumes "list_all is_finite n"
    and "\<And>i v. i \<in> set js \<Longrightarrow> is_finite v \<Longrightarrow> is_finite (h i v)"
  shows "list_all is_finite (fold (\<lambda>i m. m[b + i := h i (rd m (b + i))]) js n)"
proof (rule fold_invariant_mem[where I = "list_all is_finite"])
  show "list_all is_finite n" by (rule assms(1))
next
  fix i m
  assume i: "i \<in> set js" and m: "list_all is_finite m"
  show "list_all is_finite (m[b + i := h i (rd m (b + i))])"
  proof (cases "b + i < length m")
    case True
    then have "is_finite (h i (rd m (b + i)))"
      using assms(2)[OF i] rd_finite[OF m] by blast
    with m show ?thesis by (rule update_finite)
  next
    case False
    then show ?thesis using m by (simp add: list_update_beyond)
  qed
qed

lemma exn_finite: "is_finite (exn i)" "is_finite (eyn i)"
  by (simp_all add: exn_def eyn_def)

lemma eq_dist_finite:
  assumes "i < Q" "is_finite d" "is_finite u" "is_finite v"
  shows "is_finite (eq_dist i d u v)"
proof -
  obtain wi where wi: "rd w i = Fin wi" using w_finite[OF assms(1)] by (auto simp: is_finite_iff)
  from assms(2,3,4) obtain a b c where "d = Fin a" "u = Fin b" "v = Fin c"
    by (auto simp: is_finite_iff)
  then show ?thesis
    by (simp add: eq_dist_def Let_def wi exn_def eyn_def minus_jsnum_def)
qed

lemma omega_finite: "is_finite omega"
  by (simp add: omega_def Let_def)

lemma relax_finite:
  assumes "list_all is_finite n" "is_finite d" "is_finite u" "is_finite v"
  shows "list_all is_finite (relax idx d u v n)"
  unfolding relax_def
proof (rule fold_update_finite[where h = "\<lambda>i old. old + omega * (eq_dist i d u v - old)"])
  show "list_all is_finite n" by (rule assms(1))
next
  fix i old
  assume "i \<in> set [0..<Q]" and old: "is_finite old"
  then have "i < Q" by simp
  then have "is_finite (eq_dist i d u v)" using assms(2,3,4) by (rule eq_dist_finite)
  then show "is_finite (old + omega * (eq_dist i d u v - old))"
    using old omega_finite by (intro finite_arith)
qed

lemma impose_finite:
  assumes "list_all is_finite n" "is_finite d" "is_finite u" "is_finite v"
  shows "list_all is_finite (impose_eq idx d u v n)"
  unfolding impose_eq_def
proof (rule fold_update_finite[where h = "\<lambda>i old. eq_dist i d u v"])
  show "list_all is_finite n" by (rule assms(1))
next
  fix i old
  assume "i \<in> set [0..<Q]"
  then have "i < Q" by simp
  then show "is_finite (eq_dist i d u v)" using assms(2,3,4) by (rule eq_dist_finite)
qed

lemma clamp_u_finite: "is_finite (clamp_u (Fin q))"
  unfolding clamp_u_value by simp

lemma macroscopic_finite:
  assumes "list_all is_finite n" "length n = ROWS * COLS * Q" "y < ROWS" "x < COLS"
    and "is_finite u0"
    and mac: "macroscopic u0 x n (y * COLS + x) = (d, u, v, m)"
  shows "is_finite d \<and> is_finite u \<and> is_finite v \<and> list_all is_finite m"
proof -
  have "\<forall>i<Q. is_finite (rd n ((y * COLS + x) * Q + i))"
    using slot_in_grid[OF assms(3,4)] rd_finite[OF assms(1)] assms(2) by simp
  then obtain a b c where mom: "moments n (y * COLS + x) = (Fin a, Fin b, Fin c)"
    using moments_finite by blast
  show ?thesis
  proof (cases "x = 0")
    case True
    with mac have "d = Fin 1" "u = u0" "v = Fin 0" "m = impose_eq (y * COLS + x) (Fin 1) u0 (Fin 0) n"
      by (auto simp: macroscopic_def mom Let_def)
    then show ?thesis using assms(1,5) by (simp add: impose_finite)
  next
    case False
    have "\<exists>a' p q. d = Fin a' \<and> u = clamp_u (Fin p) \<and> v = clamp_u (Fin q) \<and> m = n"
    proof (cases "a < 0.01")
      case True
      with mac False show ?thesis by (auto simp: macroscopic_def mom Let_def)
    next
      case False
      then have "a \<noteq> 0" by auto
      with False mac \<open>x \<noteq> 0\<close> show ?thesis by (auto simp: macroscopic_def mom Let_def)
    qed
    then show ?thesis using assms(1) clamp_u_finite by auto
  qed
qed

lemma well_sized_update:
  "well_sized (s\<lparr>density := dd, ux := uu, uy := vv, n0 := nn\<rparr>) =
   (length nn = ROWS * COLS * Q \<and> length (n1 s) = ROWS * COLS * Q \<and>
    length dd = ROWS * COLS \<and> length uu = ROWS * COLS \<and> length vv = ROWS * COLS \<and>
    length (barrier s) = ROWS * COLS)"
  by (simp add: well_sized_def)

lemma collide_cell_healthy:
  assumes "healthy s" "y < ROWS" "x < COLS" "is_finite u0"
  shows "healthy (collide_cell u0 y x s)"
proof (cases "solid (barrier s) (y * COLS + x)")
  case True
  then show ?thesis using assms(1) by (simp add: collide_cell_solid)
next
  case False
  obtain d u v m where mac: "macroscopic u0 x (n0 s) (y * COLS + x) = (d, u, v, m)"
    by (cases "macroscopic u0 x (n0 s) (y * COLS + x)") auto
  from assms(1) have h: "well_sized s" "list_all is_finite (n0 s)" "list_all is_finite (n1 s)"
    by (simp_all add: healthy_def)
  have len: "length (n0 s) = ROWS * COLS * Q" using h(1) by (simp add: well_sized_def)
  from macroscopic_finite[OF h(2) len assms(2,3,4) mac]
  have fin: "is_finite d" "is_finite u" "is_finite v" "list_all is_finite m" by auto
  have "list_all is_finite (relax (y * COLS + x) d u v m)"
    using fin(4,1,2,3) by (rule relax_finite)
  moreover have "well_sized (collide_cell u0 y x s)"
    using collide_cell_frame[of u0 y x s] h(1) by (simp add: well_sized_def)
  ultimately show ?thesis
    using h(3) by (simp add: healthy_def collide_cell_fluid[OF False mac])
qed

lemma inflow_finite: "is_finite (inflow_u0 (Fin v))"
  by (simp add: inflow_u0_def js_min_def)

lemma collide_healthy: "healthy s \<Longrightarrow> healthy (collide (Fin v) s)"
  unfolding collide_def
  by (rule sweep_invariant[where I = healthy]) (simp_all add: collide_cell_healthy inflow_finite)

lemma arrive_finite:
  assumes "list_all is_finite n" "\<And>i v. i < Q \<Longrightarrow> inc i = Some v \<Longrightarrow> is_finite v"
  shows "list_all is_finite (arrive inc b n)"
  unfolding arrive_slot
proof (rule fold_update_finite[where h = "\<lambda>i old. case inc i of Some v \<Rightarrow> v | None \<Rightarrow> old"])
  show "list_all is_finite n" by (rule assms(1))
next
  fix i old
  assume "i \<in> set [0..<Q]" and old: "is_finite old"
  then have "i < Q" by simp
  then show "is_finite (case inc i of Some v \<Rightarrow> v | None \<Rightarrow> old)"
    using assms(2)[of i] old by (cases "inc i") simp_all
qed

lemma opp_range: "i < Q \<Longrightarrow> opp ! i < Q"
proof -
  assume "i < Q"
  then have "i < length opp" by (simp add: Q_def opp_def)
  then have "opp ! i \<in> set opp" by (rule nth_mem)
  moreover have "\<forall>j\<in>set opp. j < Q" by (simp add: opp_def Q_def)
  ultimately show ?thesis by blast
qed

lemma incoming_finite:
  assumes "list_all is_finite (n0 t)" "length (n0 t) = ROWS * COLS * Q"
    and "y < ROWS" "x < COLS" "i < Q" and inc: "incoming t y x i = Some v"
  shows "is_finite v"
proof -
  let ?sx = "int x - ex ! i"
  let ?sy = "int y - ey ! i"
  note fin = rd_finite[OF assms(1)]
  consider (inside) "0 \<le> ?sx \<and> ?sx < int COLS \<and> 0 \<le> ?sy \<and> ?sy < int ROWS"
    | (wrap) "(?sy < 0 \<or> int ROWS \<le> ?sy) \<and> 0 \<le> ?sx \<and> ?sx < int COLS"
    | (none) "(?sy < 0 \<or> int ROWS \<le> ?sy) \<and> \<not> (0 \<le> ?sx \<and> ?sx < int COLS)"
    | (left) "?sx < 0 \<and> 0 \<le> ?sy \<and> ?sy < int ROWS"
    | (right) "int COLS \<le> ?sx \<and> 0 \<le> ?sy \<and> ?sy < int ROWS"
    by linarith
  then show ?thesis
  proof cases
    case inside
    have src: "nat (?sy * int COLS + ?sx) = nat ?sy * COLS + nat ?sx"
      using inside by (simp add: nat_add_distrib nat_mult_distrib)
    have "nat ?sy < ROWS" "nat ?sx < COLS" using inside by linarith+
    then have k1: "(nat ?sy * COLS + nat ?sx) * Q + i < ROWS * COLS * Q"
      using assms(5) by (rule slot_in_grid)
    have k2: "(y * COLS + x) * Q + opp ! i < ROWS * COLS * Q"
      using assms(3,4) opp_range[OF assms(5)] by (rule slot_in_grid)
    from inc inside have
      "v = rd (n0 t) ((y * COLS + x) * Q + opp ! i) \<or>
       v = rd (n0 t) ((nat ?sy * COLS + nat ?sx) * Q + i)"
      by (auto simp: incoming_def Let_def src split: if_splits)
    then show ?thesis using fin k1 k2 assms(2) by auto
  next
    case wrap
    let ?k = "(nat (?sy mod int ROWS) * COLS + nat ?sx) * Q + i"
    have "nat (?sy mod int ROWS) < ROWS" by (simp add: ROWS_def)
    moreover have "nat ?sx < COLS" using wrap by linarith
    ultimately have "?k < ROWS * COLS * Q" using assms(5) by (rule slot_in_grid)
    moreover have "v = rd (n0 t) ?k"
      using inc incoming_wrap[of y i x t] wrap assms(5) by simp
    ultimately show ?thesis using fin assms(2) by simp
  next
    case none
    with inc show ?thesis by (auto simp: incoming_def Let_def split: if_splits)
  next
    case left
    with inc have "v = rd w i" by (simp add: incoming_left)
    then show ?thesis using w_finite[OF assms(5)] by simp
  next
    case right
    with inc show ?thesis by (auto simp: incoming_def Let_def split: if_splits)
  qed
qed

lemma healthy_n1:
  "healthy s \<Longrightarrow> list_all is_finite m \<Longrightarrow> length m = length (n1 s) \<Longrightarrow>
   healthy (s\<lparr>n1 := m\<rparr>)"
  by (simp add: healthy_def well_sized_def)

lemma stream_cell_healthy:
  assumes "healthy s" "y < ROWS" "x < COLS"
  shows "healthy (stream_cell y x s)"
proof -
  from assms(1) have h: "list_all is_finite (n0 s)" "length (n0 s) = ROWS * COLS * Q"
    "list_all is_finite (n1 s)"
    by (simp_all add: healthy_def well_sized_def)
  have "list_all is_finite (arrive (incoming s y x) ((y * COLS + x) * Q) (n1 s))"
    using h(3) incoming_finite[OF h(1,2) assms(2,3)] by (rule arrive_finite)
  then show ?thesis
    using assms(1) by (simp add: stream_cell_eq healthy_n1)
qed

lemma reset_cell_healthy:
  assumes "healthy s"
  shows "healthy (reset_cell y x s)"
proof -
  from assms have h: "list_all is_finite (n1 s)" by (simp add: healthy_def)
  have "list_all is_finite (arrive (\<lambda>i. Some (rd w i)) ((y * COLS + x) * Q) (n1 s))"
    using h by (rule arrive_finite) (use w_finite in auto)
  then show ?thesis
    using assms by (simp add: reset_cell_eq healthy_n1)
qed

lemma stream_healthy: "healthy s \<Longrightarrow> healthy (stream s)"
  unfolding stream_def
  by (rule sweep_invariant[where I = healthy]) (simp_all add: stream_cell_healthy)

lemma reset_healthy: "healthy s \<Longrightarrow> healthy (reset_solid s)"
  unfolding reset_solid_def
  by (rule sweep_invariant[where I = healthy]) (simp_all add: reset_cell_healthy)

lemma swap_healthy: "healthy s \<Longrightarrow> healthy (swap_buffers s)"
  by (simp add: healthy_def well_sized_def swap_buffers_def)

lemma simulate_healthy: "healthy s \<Longrightarrow> healthy (simulate (Fin v) s)"
  unfolding simulate_def
  by (intro swap_healthy reset_healthy stream_healthy collide_healthy)

lemma fresh_healthy: "healthy fresh_state"
  by (simp add: healthy_def well_sized_def fresh_state_def list_all_iff)

lemma weights_fold_length:
  "length (fold (\<lambda>i m. m[i := rd w (i mod Q)]) js n) = length n"
  by (induction js arbitrary: n) simp_all

lemma weights_fold_finite:
  assumes "list_all is_finite n"
  shows "list_all is_finite (fold (\<lambda>i m. m[i := rd w (i mod Q)]) js n)"
proof (rule fold_invariant[where I = "list_all is_finite"])
  show "list_all is_finite n" by (rule assms)
next
  fix i m
  assume m: "list_all is_finite m"
  have "i mod Q < Q" by (simp add: Q_def)
  then have "is_finite (rd w (i mod Q))" by (rule w_finite)
  with m show "list_all is_finite (m[i := rd w (i mod Q)])" by (rule update_finite)
qed

lemma initFluid_healthy: "healthy s \<Longrightarrow> healthy (initFluid s)"
  by (simp add: healthy_def well_sized_def initFluid_def Let_def weights_fold_length
      weights_fold_finite)

lemma barrier_healthy: "healthy s \<Longrightarrow> length b = length (barrier s) \<Longrightarrow> healthy (s\<lparr>barrier := b\<rparr>)"
  by (simp add: healthy_def well_sized_def)

lemma engine_healthy: "engine_state s \<Longrightarrow> healthy s"
proof (induction rule: engine_state.induct)
  case allocated
  show ?case by (rule fresh_healthy)
next
  case (reset s)
  then show ?case by (simp add: initFluid_healthy)
next
  case (shape s polygon b)
  have "length b = length (barrier s)"
    using rasterize_terminates[of polygon "int COLS" "int ROWS" "barrier s"] shape.hyps(2)
    by simp
  with shape.IH show ?case by (rule barrier_healthy)
next
  case (step s windSpeed)
  then show ?case by (simp add: simulate_healthy)
qed

text \<open>
  C7: after every simulation step of the engine, every non-solid cell outside the inflow
  column has stored velocity components with \<open>|velocity.x| \<le> 0.35\<close> and
  \<open>|velocity.y| \<le> 0.35\<close>. The populations of an engine state are finite numbers, so the
  density floor keeps the division finite and the clamp applies.
\<close>

theorem velocity_clamp:
  assumes "engine_state s" "y < ROWS" "x < COLS" "x \<noteq> 0"
    and "\<not> solid (barrier s) (y * COLS + x)"
  shows "\<bar>ux (simulate windSpeed s) ! (y * COLS + x)\<bar> \<le> Fin 0.35 \<and>
         \<bar>uy (simulate windSpeed s) ! (y * COLS + x)\<bar> \<le> Fin 0.35"
proof -
  have h: "healthy s" using assms(1) by (rule engine_healthy)
  then have ws: "well_sized s" and fin: "list_all is_finite (n0 s)"
    by (simp_all add: healthy_def)
  have "\<forall>i<Q. is_finite (n0 s ! ((y * COLS + x) * Q + i))"
  proof (intro allI impI)
    fix i assume "i < Q"
    with assms(2,3) have "(y * COLS + x) * Q + i < ROWS * COLS * Q" by (rule slot_in_grid)
    then show "is_finite (n0 s ! ((y * COLS + x) * Q + i))"
      using fin ws by (simp add: list_all_length well_sized_def)
  qed
  with ws assms(2-5) show ?thesis by (rule velocity_clamp_finite)
qed

lemma initFluid_fresh: "initFluid fresh_state = rest_state"
proof -
  have pop: "fold (\<lambda>i m. m[i := rd w (i mod Q)]) [0..<n] (replicate n (Fin 0)) =
             map (\<lambda>i. rd w (i mod Q)) [0..<n]" for n
  proof (rule nth_equalityI)
    show "length (fold (\<lambda>i m. m[i := rd w (i mod Q)]) [0..<n] (replicate n (Fin 0))) =
          length (map (\<lambda>i. rd w (i mod Q)) [0..<n])"
      by (simp add: weights_fold_length)
  next
    fix k
    assume "k < length (fold (\<lambda>i m. m[i := rd w (i mod Q)]) [0..<n] (replicate n (Fin 0)))"
    then have k: "k < n" by (simp add: weights_fold_length)
    let ?F = "fold (\<lambda>i m. m[i := rd w (i mod Q)]) [0..<n] (replicate n (Fin 0))"
    have "rd (fold (\<lambda>i m. m[0 + i := rd w (i mod Q)]) [0..<n] (replicate n (Fin 0))) k =
          rd w (k mod Q)"
      using fold_slot_rd[where h = "\<lambda>i old. rd w (i mod Q)" and b = 0 and q = n
          and n = "replicate n (Fin 0)" and k = k] k
      by simp
    then have A: "rd ?F k = rd w (k mod Q)" by simp
    have B: "rd ?F k = ?F ! k" using k by (simp add: rd_nth weights_fold_length)
    show "?F ! k = map (\<lambda>i. rd w (i mod Q)) [0..<n] ! k"
      using A B k by simp
  qed
  show ?thesis
    by (simp add: initFluid_def fresh_state_def rest_state_def Let_def pop)
qed

theorem velocity_clamp_witness:
  "engine_state rest_state \<and> 50 < ROWS \<and> 20 < COLS \<and> (20::nat) \<noteq> 0 \<and>
   \<not> solid (barrier rest_state) (50 * COLS + 20) \<and>
   \<bar>ux (simulate (Fin 45) rest_state) ! (50 * COLS + 20)\<bar> \<le> Fin 0.35 \<and>
   \<bar>uy (simulate (Fin 45) rest_state) ! (50 * COLS + 20)\<bar> \<le> Fin 0.35"
proof -
  have e: "engine_state rest_state"
    using engine_state.reset[OF engine_state.allocated] by (simp add: initFluid_fresh)
  have r: "50 < ROWS" and c: "20 < COLS" by (simp_all add: ROWS_def COLS_def)
  show ?thesis
    using velocity_clamp[OF e r c _ rest_fluid, of "Fin 45"] e r c
    by (simp add: rest_fluid)
qed

end
